theory Spec2Isabelle
  imports Complex_Main "HOL-Library.Word"
begin

section \<open>Boards: typed arrays of bytes\<close>

text \<open>
  The board is a \<^verbatim>\<open>Uint8Array\<close>: a fixed-length array of bytes, addressed row-major
  (\<open>index = y * width + x\<close>). Reading outside the array yields \<^verbatim>\<open>undefined\<close> (here
  \<open>None\<close>); writing outside the array is ignored. Coordinates and dimensions are JavaScript
  numbers holding integers, modelled as \<open>int\<close>.
\<close>

type_synonym byte = "8 word"
type_synonym board = "byte list"

datatype error = RangeError

definition newUint8Array :: "int \<Rightarrow> error + board" where
  "newUint8Array n = (if n < 0 then Inl RangeError else Inr (replicate (nat n) 0))"

definition createEmptyBoard :: "int \<Rightarrow> int \<Rightarrow> error + board" where
  "createEmptyBoard width height = newUint8Array (width * height)"

definition getCell :: "board \<Rightarrow> int \<Rightarrow> byte option" where
  "getCell b i = (if 0 \<le> i \<and> i < int (length b) then Some (b ! nat i) else None)"

definition setCell :: "board \<Rightarrow> int \<Rightarrow> byte \<Rightarrow> board" where
  "setCell b i v = (if 0 \<le> i \<and> i < int (length b) then b[nat i := v] else b)"

text \<open>Truthiness of an array read: \<^verbatim>\<open>undefined\<close> and \<open>0\<close> are falsy.\<close>

definition truthy :: "byte option \<Rightarrow> bool" where
  "truthy c = (case c of None \<Rightarrow> False | Some v \<Rightarrow> v \<noteq> 0)"

text \<open>
  \<^verbatim>\<open>neighbors += board[k]\<close>: the running count is a JavaScript number; adding
  \<^verbatim>\<open>undefined\<close> turns it into \<^verbatim>\<open>NaN\<close> (here \<open>None\<close>), which stays \<^verbatim>\<open>NaN\<close>.
\<close>

definition addCell :: "nat option \<Rightarrow> byte option \<Rightarrow> nat option" where
  "addCell n c = (case n of None \<Rightarrow> None
                  | Some k \<Rightarrow> (case c of None \<Rightarrow> None | Some v \<Rightarrow> Some (k + unat v)))"

section \<open>The rule engine: \<^verbatim>\<open>computeNext\<close>\<close>

text \<open>The body of the two inner loops over \<open>dy\<close> and \<open>dx\<close> for one offset.\<close>

definition neighborVisit ::
  "board \<Rightarrow> int \<Rightarrow> int \<Rightarrow> bool \<Rightarrow> int \<Rightarrow> int \<Rightarrow> int \<Rightarrow> int \<Rightarrow> nat option \<Rightarrow> nat option" where
  "neighborVisit board width height wrap x y dy dx neighbors =
     (if dx = 0 \<and> dy = 0 then neighbors
      else
        let nx = x + dx; ny = y + dy in
        if wrap then
          (let nx1 = (if nx < 0 then width - 1 else nx);
               nx2 = (if nx1 \<ge> width then 0 else nx1);
               ny1 = (if ny < 0 then height - 1 else ny);
               ny2 = (if ny1 \<ge> height then 0 else ny1)
           in addCell neighbors (getCell board (ny2 * width + nx2)))
        else if nx < 0 \<or> nx \<ge> width \<or> ny < 0 \<or> ny \<ge> height then neighbors
        else addCell neighbors (getCell board (ny * width + nx)))"

definition countNeighbors ::
  "board \<Rightarrow> int \<Rightarrow> int \<Rightarrow> bool \<Rightarrow> int \<Rightarrow> int \<Rightarrow> nat option" where
  "countNeighbors board width height wrap x y =
     foldl (\<lambda>n dy. foldl (\<lambda>n dx. neighborVisit board width height wrap x y dy dx n) n [-1, 0, 1])
       (Some 0) [-1, 0, 1]"

text \<open>The body of the loops over \<open>y\<close> and \<open>x\<close>: count, then write the cell's next state.\<close>

definition updateCell ::
  "board \<Rightarrow> int \<Rightarrow> int \<Rightarrow> bool \<Rightarrow> board \<Rightarrow> int \<Rightarrow> int \<Rightarrow> board" where
  "updateCell board width height wrap next y x =
     (let neighbors = countNeighbors board width height wrap x y;
          idx = y * width + x
      in if truthy (getCell board idx)
         then setCell next idx (if neighbors = Some 2 \<or> neighbors = Some 3 then 1 else 0)
         else setCell next idx (if neighbors = Some 3 then 1 else 0))"

definition computeNext :: "board \<Rightarrow> int \<Rightarrow> int \<Rightarrow> bool \<Rightarrow> board" where
  "computeNext board width height wrap =
     foldl (\<lambda>next y. foldl (\<lambda>next x. updateCell board width height wrap next y x) next [0..width - 1])
       (replicate (length board) 0) [0..height - 1]"

section \<open>The rule as the specification words it\<close>

text \<open>
  The board invariant of the data model: positive dimensions, one cell per coordinate,
  every cell 0 or 1.
\<close>

definition validBoard :: "board \<Rightarrow> int \<Rightarrow> int \<Rightarrow> bool" where
  "validBoard b width height \<longleftrightarrow>
     0 < width \<and> 0 < height \<and> int (length b) = width * height \<and> list_all (\<lambda>c. c = 0 \<or> c = 1) b"

definition cellAt :: "board \<Rightarrow> int \<Rightarrow> int \<Rightarrow> int \<Rightarrow> nat" where
  "cellAt b width x y = unat (b ! nat (y * width + x))"

text \<open>
  What the neighbour at coordinate \<open>(nx, ny)\<close> contributes to a count: under wrap the
  coordinate is taken modulo the dimensions; without wrap a coordinate off the board
  contributes nothing.
\<close>

definition neighborValue :: "board \<Rightarrow> int \<Rightarrow> int \<Rightarrow> bool \<Rightarrow> int \<Rightarrow> int \<Rightarrow> nat" where
  "neighborValue b width height wrap nx ny =
     (if wrap then cellAt b width (nx mod width) (ny mod height)
      else if 0 \<le> nx \<and> nx < width \<and> 0 \<le> ny \<and> ny < height then cellAt b width nx ny
      else 0)"

text \<open>The eight offsets \<open>(dx, dy)\<close> of the Moore neighbourhood.\<close>

definition mooreOffsets :: "(int \<times> int) list" where
  "mooreOffsets = [(-1, -1), (0, -1), (1, -1), (-1, 0), (1, 0), (-1, 1), (0, 1), (1, 1)]"

definition liveNeighbors :: "board \<Rightarrow> int \<Rightarrow> int \<Rightarrow> bool \<Rightarrow> int \<Rightarrow> int \<Rightarrow> nat" where
  "liveNeighbors b width height wrap x y =
     sum_list (map (\<lambda>(dx, dy). neighborValue b width height wrap (x + dx) (y + dy)) mooreOffsets)"

text \<open>Conway's B3/S23 on one cell: its current value and its live-neighbour count.\<close>

definition conway :: "nat \<Rightarrow> nat \<Rightarrow> byte" where
  "conway c n = (if c \<noteq> 0 then (if n = 2 \<or> n = 3 then 1 else 0) else (if n = 3 then 1 else 0))"

section \<open>JavaScript numbers\<close>

text \<open>
  A JavaScript number is an IEEE 754 double: a finite value (read as the real number it
  denotes; the two zeros are one), an infinity or \<^verbatim>\<open>NaN\<close>.
\<close>

datatype jsnum = Fin real | PosInf | NegInf | NaN

text \<open>
  Rounding an exact real result to a double, to nearest and ties to even. A double has 53
  significant bits: in the binade \<open>[2^e, 2^(e+1))\<close> the doubles are the multiples of
  \<open>2^(e - 52)\<close>, and below \<open>2^(-1022)\<close> (the subnormal range) the multiples of \<open>2^(-1074)\<close>.
  A result that rounds to \<open>2^1024\<close> or beyond in magnitude overflows to an infinity.
\<close>

definition roundHalfEven :: "real \<Rightarrow> int" where
  "roundHalfEven y =
     (let f = \<lfloor>y\<rfloor>; d = y - of_int f
      in if d < 1 / 2 then f else if d > 1 / 2 then f + 1 else if even f then f else f + 1)"

definition binade :: "real \<Rightarrow> int" where
  "binade x = max \<lfloor>log 2 \<bar>x\<bar>\<rfloor> (- 1022)"

definition quantum :: "real \<Rightarrow> real" where
  "quantum x = 2 powr of_int (binade x - 52)"

definition roundToQuantum :: "real \<Rightarrow> real" where
  "roundToQuantum x = of_int (roundHalfEven (x / quantum x)) * quantum x"

definition toDouble :: "real \<Rightarrow> jsnum" where
  "toDouble x =
     (if x = 0 then Fin 0
      else if \<bar>roundToQuantum x\<bar> \<ge> 2 powr 1024 then (if x > 0 then PosInf else NegInf)
      else Fin (roundToQuantum x))"

text \<open>
  \<^verbatim>\<open>a - b\<close> and \<^verbatim>\<open>a / b\<close> on finite doubles: the exact result, rounded. A zero divisor is
  taken as \<open>+0\<close>.
\<close>

definition jsSub :: "real \<Rightarrow> real \<Rightarrow> jsnum" where
  "jsSub a b = toDouble (a - b)"

definition jsDiv :: "real \<Rightarrow> real \<Rightarrow> jsnum" where
  "jsDiv a b =
     (if b = 0 then (if a = 0 then NaN else if a > 0 then PosInf else NegInf)
      else toDouble (a / b))"

text \<open>\<^verbatim>\<open>a >= b\<close>: false when either side is \<^verbatim>\<open>NaN\<close>.\<close>

fun jsGe :: "jsnum \<Rightarrow> jsnum \<Rightarrow> bool" where
  "jsGe NaN b = False"
| "jsGe a NaN = False"
| "jsGe PosInf b = True"
| "jsGe a NegInf = True"
| "jsGe (Fin a) (Fin b) = (a \<ge> b)"
| "jsGe (Fin a) PosInf = False"
| "jsGe NegInf b = False"

section \<open>Creating boards\<close>

text \<open>
  \<^verbatim>\<open>randomBoard\<close> draws one sample of \<^verbatim>\<open>Math.random()\<close> per cell, in index order. The
  samples are an input of the model: \<open>rnd i\<close> is the sample drawn for cell \<open>i\<close>. Samples and
  the density are doubles, read as the real numbers they denote; \<open><\<close> on them is exact.
\<close>

definition randomBoard :: "(nat \<Rightarrow> real) \<Rightarrow> int \<Rightarrow> int \<Rightarrow> real \<Rightarrow> error + board" where
  "randomBoard rnd width height density =
     (case newUint8Array (width * height) of
        Inl e \<Rightarrow> Inl e
      | Inr next \<Rightarrow>
          Inr (foldl (\<lambda>next i. setCell next i (if rnd (nat i) < density then 1 else 0))
                 next [0..int (length next) - 1]))"

text \<open>
  \<^verbatim>\<open>deserializeCells\<close>: strip every character but \<open>0\<close> and \<open>1\<close>, then fill a zeroed array
  from the front while both the array and the stripped string last.
\<close>

definition deserializeCells :: "string \<Rightarrow> int \<Rightarrow> int \<Rightarrow> error + board" where
  "deserializeCells raw width height =
     (let total = width * height;
          normalized = filter (\<lambda>c. c = CHR ''0'' \<or> c = CHR ''1'') raw
      in case newUint8Array total of
           Inl e \<Rightarrow> Inl e
         | Inr arr \<Rightarrow>
             Inr (foldl (\<lambda>arr i. setCell arr i (if normalized ! nat i = CHR ''1'' then 1 else 0))
                    arr [0..min total (int (length normalized)) - 1]))"

section \<open>Sizes\<close>

definition MIN_SIZE :: int where "MIN_SIZE = 10"
definition MAX_SIZE :: int where "MAX_SIZE = 150"
definition DEFAULT_WIDTH :: int where "DEFAULT_WIDTH = 42"
definition DEFAULT_HEIGHT :: int where "DEFAULT_HEIGHT = 28"

text \<open>
  \<^verbatim>\<open>clampSize\<close> on a finite number. \<^verbatim>\<open>Math.round\<close> rounds to the nearest integer, a tie
  towards \<open>+\<infinity>\<close>: it is \<open>\<lfloor>v + 1/2\<rfloor>\<close>, exactly.
\<close>

definition clampSize :: "real \<Rightarrow> int" where
  "clampSize v = max MIN_SIZE (min MAX_SIZE \<lfloor>v + 1 / 2\<rfloor>)"

section \<open>Resizing: the updater of \<^verbatim>\<open>applySize\<close>\<close>

text \<open>
  \<open>resizeCells prev oldWidth oldHeight width height\<close> is the function that \<^verbatim>\<open>applySize\<close>
  passes to \<^verbatim>\<open>setCells\<close>: \<open>oldWidth\<close> and \<open>oldHeight\<close> are \<^verbatim>\<open>config.width\<close> and
  \<^verbatim>\<open>config.height\<close>. Storing an \<^verbatim>\<open>undefined\<close> read into a byte array stores 0.
\<close>

definition resizeCells :: "board \<Rightarrow> int \<Rightarrow> int \<Rightarrow> int \<Rightarrow> int \<Rightarrow> error + board" where
  "resizeCells prev oldWidth oldHeight width height =
     (case createEmptyBoard width height of
        Inl e \<Rightarrow> Inl e
      | Inr next \<Rightarrow>
          (let copyWidth = min oldWidth width;
               copyHeight = min oldHeight height
           in Inr (foldl (\<lambda>next y.
                      foldl (\<lambda>next x. setCell next (y * width + x)
                                         (case getCell prev (y * oldWidth + x) of
                                            None \<Rightarrow> 0 | Some v \<Rightarrow> v))
                        next [0..copyWidth - 1])
                    next [0..copyHeight - 1])))"

section \<open>Patterns\<close>

text \<open>The display-only \<^verbatim>\<open>description\<close> of a pattern is left out.\<close>

record pattern =
  pattern_id :: string
  label :: string
  minWidth :: int
  minHeight :: int
  rows :: "string list"
  offsets :: "(int \<times> int) list"

definition rowsToOffsets :: "string list \<Rightarrow> (int \<times> int) list" where
  "rowsToOffsets rs =
     (let height = int (length rs);
          width = (case rs of [] \<Rightarrow> 0 | r # _ \<Rightarrow> int (length r));
          cx = width div 2;
          cy = height div 2
      in concat (map (\<lambda>(y, row).
                   concat (map (\<lambda>(x, char).
                             if char = CHR ''O'' \<or> char = CHR ''X'' \<or> char = CHR ''1''
                             then [(int x - cx, int y - cy)] else [])
                           (enumerate 0 row)))
                 (enumerate 0 rs)))"

text \<open>A catalogue entry as it stands after the \<^verbatim>\<open>forEach\<close> that fills in the offsets.\<close>

definition mkPattern :: "string \<Rightarrow> string \<Rightarrow> int \<Rightarrow> int \<Rightarrow> string list \<Rightarrow> pattern" where
  "mkPattern i l mw mh rs =
     \<lparr>pattern_id = i, label = l, minWidth = mw, minHeight = mh, rows = rs,
      offsets = rowsToOffsets rs\<rparr>"

definition PATTERNS :: "pattern list" where
  "PATTERNS =
     [mkPattern ''glider'' ''Glider'' 8 8 [''.O.'', ''..O'', ''OOO''],
      mkPattern ''small-exploder'' ''Small Exploder'' 10 10 [''.O.'', ''OOO'', ''O.O'', ''.O.''],
      mkPattern ''pulsar'' ''Pulsar'' 18 18
        [''..OOO...OOO..'',
         ''.............'',
         ''O....O.O....O'',
         ''O....O.O....O'',
         ''O....O.O....O'',
         ''..OOO...OOO..'',
         ''.............'',
         ''..OOO...OOO..'',
         ''O....O.O....O'',
         ''O....O.O....O'',
         ''O....O.O....O'',
         ''.............'',
         ''..OOO...OOO..''],
      mkPattern ''gosper'' ''Gosper Glider Gun'' 45 25
        [''........................O...........'',
         ''......................O.O...........'',
         ''............OO......OO............OO'',
         ''...........O...O....OO............OO'',
         ''OO........O.....O...OO..............'',
         ''OO........O...O.OO....O.O...........'',
         ''..........O.....O.......O...........'',
         ''...........O...O....................'',
         ''............OO......................'']]"

text \<open>
  The updater that \<^verbatim>\<open>applyPattern\<close> passes to \<^verbatim>\<open>setCells\<close>: a copy of the board with
  every in-bounds target of an offset set to 1.
\<close>

definition placeOffsets :: "board \<Rightarrow> int \<Rightarrow> int \<Rightarrow> (int \<times> int) list \<Rightarrow> board" where
  "placeOffsets prev width height offs =
     (let cx = width div 2; cy = height div 2
      in foldl (\<lambda>next (dx, dy).
                  let x = cx + dx; y = cy + dy
                  in if x \<ge> 0 \<and> x < width \<and> y \<ge> 0 \<and> y < height
                     then setCell next (y * width + x) 1 else next)
           prev offs)"

section \<open>The application state and its handlers\<close>

datatype toastMsg = TooSmall int int string | Placed string

text \<open>
  The state of \<^verbatim>\<open>App\<close> that the handlers read and write: \<^verbatim>\<open>config\<close> (without the
  theme), the board, the generation counter, the running flag, the density, the draft size,
  \<^verbatim>\<open>lastFrameRef\<close> and the toast. Each handler is one atomic transition: the state
  updates it queues are applied in order before the next handler runs. Times, the speed and
  the density are finite doubles, read as the real numbers they denote; the generation
  counter is an unbounded natural number.
\<close>

record app =
  config_width :: int
  config_height :: int
  config_speed :: real
  config_wrap :: bool
  cells :: board
  generation :: nat
  running :: bool
  density :: real
  draft_width :: real
  draft_height :: real
  lastFrame :: real
  toast :: "toastMsg option"

definition clearBoard :: "app \<Rightarrow> error + app" where
  "clearBoard s =
     (case createEmptyBoard (config_width s) (config_height s) of
        Inl e \<Rightarrow> Inl e
      | Inr b \<Rightarrow> Inr (s\<lparr>cells := b, generation := 0\<rparr>))"

definition randomizeBoard :: "(nat \<Rightarrow> real) \<Rightarrow> app \<Rightarrow> error + app" where
  "randomizeBoard rnd s =
     (case randomBoard rnd (config_width s) (config_height s) (density s) of
        Inl e \<Rightarrow> Inl e
      | Inr next \<Rightarrow> Inr (s\<lparr>cells := next, generation := 0\<rparr>))"

definition stepOnce :: "app \<Rightarrow> app" where
  "stepOnce s =
     s\<lparr>cells := computeNext (cells s) (config_width s) (config_height s) (config_wrap s),
       generation := generation s + 1\<rparr>"

text \<open>
  One animation-frame callback at time \<open>now\<close>: \<^verbatim>\<open>now - lastFrameRef.current\<close> and
  \<^verbatim>\<open>1000 / config.speed\<close> are computed in doubles and compared.
\<close>

definition tick :: "real \<Rightarrow> app \<Rightarrow> app" where
  "tick now s =
     (let stepInterval = jsDiv 1000 (config_speed s)
      in if jsGe (jsSub now (lastFrame s)) stepInterval
         then s\<lparr>cells := computeNext (cells s) (config_width s) (config_height s) (config_wrap s),
                generation := generation s + 1,
                lastFrame := now\<rparr>
         else s)"

text \<open>The running effect: frames are requested only while \<^verbatim>\<open>running\<close> holds.\<close>

definition frame :: "real \<Rightarrow> app \<Rightarrow> app" where
  "frame now s = (if running s then tick now s else s)"

definition applyPatternIn :: "pattern list \<Rightarrow> string \<Rightarrow> app \<Rightarrow> app" where
  "applyPatternIn catalogue patternId s =
     (case find (\<lambda>p. pattern_id p = patternId) catalogue of
        None \<Rightarrow> s
      | Some p \<Rightarrow>
          if config_width s < minWidth p \<or> config_height s < minHeight p
          then s\<lparr>toast := Some (TooSmall (minWidth p) (minHeight p) (label p))\<rparr>
          else s\<lparr>cells := placeOffsets (cells s) (config_width s) (config_height s) (offsets p),
                 generation := 0,
                 toast := Some (Placed (label p))\<rparr>)"

definition applyPattern :: "string \<Rightarrow> app \<Rightarrow> app" where
  "applyPattern patternId s = applyPatternIn PATTERNS patternId s"

definition applySize :: "app \<Rightarrow> error + app" where
  "applySize s =
     (let width = clampSize (draft_width s);
          height = clampSize (draft_height s)
      in if width = config_width s \<and> height = config_height s then Inr s
         else case resizeCells (cells s) (config_width s) (config_height s) width height of
                Inl e \<Rightarrow> Inl e
              | Inr next \<Rightarrow>
                  Inr (s\<lparr>cells := next, generation := 0,
                         config_width := width, config_height := height\<rparr>))"

text \<open>
  \<^verbatim>\<open>toggleCellAt\<close> from the cell coordinates on: \<open>x\<close> and \<open>y\<close> are the floors computed from
  the pointer position, \<open>forceValue\<close> is the optional paint value (\<open>True\<close> for 1).
\<close>

definition toggleCellAt :: "int \<Rightarrow> int \<Rightarrow> bool option \<Rightarrow> app \<Rightarrow> app" where
  "toggleCellAt x y forceValue s =
     (if x < 0 \<or> y < 0 \<or> x \<ge> config_width s \<or> y \<ge> config_height s then s
      else
        let prev = cells s;
            idx = y * config_width s + x;
            target = (case forceValue of
                        Some v \<Rightarrow> (if v then 1 else 0)
                      | None \<Rightarrow> (if truthy (getCell prev idx) then 0 else 1))
        in if getCell prev idx = Some target then s
           else s\<lparr>cells := setCell prev idx target\<rparr>)"

text \<open>The state invariant: the board fits the configured dimensions.\<close>

definition validState :: "app \<Rightarrow> bool" where
  "validState s \<longleftrightarrow> validBoard (cells s) (config_width s) (config_height s)"

section \<open>Runs of the animation loop\<close>

text \<open>The state after the frame callbacks at the times \<open>ts\<close>, in order.\<close>

definition runFrames :: "app \<Rightarrow> real list \<Rightarrow> app" where
  "runFrames s ts = foldl (\<lambda>s now. frame now s) s ts"

text \<open>
  The callback times of a run at which a generation was computed, read off the generation
  counter before and after each callback.
\<close>

fun advanceTimes :: "app \<Rightarrow> real list \<Rightarrow> real list" where
  "advanceTimes s [] = []"
| "advanceTimes s (now # ts) =
     (if generation (frame now s) \<noteq> generation s
      then now # advanceTimes (frame now s) ts
      else advanceTimes (frame now s) ts)"

section \<open>Reading the persisted state\<close>

text \<open>
  The numbers of a stored record are finite doubles or, for a numeral beyond the double
  range, an infinity; \<^verbatim>\<open>NaN\<close> comes from a coercion only.
\<close>

text \<open>
  A value of a field of the parsed record. \<open>JUndefined\<close> stands for a missing field;
  \<open>JObject\<close> for an array or an object.
\<close>

datatype jsval = JUndefined | JNull | JBool bool | JNumber jsnum | JString string | JObject

text \<open>
  The six fields that \<^verbatim>\<open>loadSavedState\<close> reads from the parsed value. A parsed number,
  string, boolean or array has none of them: all six are \<open>JUndefined\<close>.
\<close>

record parsedState =
  parsed_width :: jsval
  parsed_height :: jsval
  parsed_speed :: jsval
  parsed_wrap :: jsval
  parsed_theme :: jsval
  parsed_cells :: jsval

text \<open>
  What \<^verbatim>\<open>localStorage.getItem\<close> followed by \<^verbatim>\<open>JSON.parse\<close> can come to: no window, no
  item or an empty item; an exception from either call; the parsed value \<^verbatim>\<open>null\<close>, on
  which reading a field throws; any other parsed value.
\<close>

datatype storage = NoItem | Throws | ParsedNull | Parsed parsedState

text \<open>
  \<^verbatim>\<open>clampSize\<close> on any JavaScript number: \<^verbatim>\<open>Math.round\<close>, \<^verbatim>\<open>Math.min\<close> and \<^verbatim>\<open>Math.max\<close>
  keep \<^verbatim>\<open>NaN\<close> (here \<open>None\<close>), and an infinity is clamped to the nearer bound.
\<close>

definition clampSizeJS :: "jsnum \<Rightarrow> int option" where
  "clampSizeJS value =
     (case value of
        Fin v \<Rightarrow> Some (clampSize v)
      | PosInf \<Rightarrow> Some MAX_SIZE
      | NegInf \<Rightarrow> Some MIN_SIZE
      | NaN \<Rightarrow> None)"

text \<open>
  \<^verbatim>\<open>ToNumber\<close>, the coercion that \<^verbatim>\<open>Math.round\<close> applies to its argument. On a string,
  an array or an object it is the runtime's \<^verbatim>\<open>StringToNumber\<close> (after \<^verbatim>\<open>ToPrimitive\<close>),
  which is a parameter \<open>coerce\<close> of the model.
\<close>

definition toNumber :: "(jsval \<Rightarrow> jsnum) \<Rightarrow> jsval \<Rightarrow> jsnum" where
  "toNumber coerce v =
     (case v of
        JUndefined \<Rightarrow> NaN
      | JNull \<Rightarrow> Fin 0
      | JBool b \<Rightarrow> Fin (if b then 1 else 0)
      | JNumber n \<Rightarrow> n
      | JString s \<Rightarrow> coerce v
      | JObject \<Rightarrow> coerce v)"

text \<open>\<^verbatim>\<open>value ?? fallback\<close> with a numeric fallback.\<close>

definition nullish :: "jsval \<Rightarrow> real \<Rightarrow> jsval" where
  "nullish v fallback = (if v = JUndefined \<or> v = JNull then JNumber (Fin fallback) else v)"

text \<open>\<^verbatim>\<open>Boolean(value)\<close>.\<close>

definition toBoolean :: "jsval \<Rightarrow> bool" where
  "toBoolean v =
     (case v of
        JUndefined \<Rightarrow> False
      | JNull \<Rightarrow> False
      | JBool b \<Rightarrow> b
      | JNumber n \<Rightarrow> (n \<noteq> Fin 0 \<and> n \<noteq> NaN)
      | JString s \<Rightarrow> s \<noteq> []
      | JObject \<Rightarrow> True)"

text \<open>
  \<^verbatim>\<open>isThemeId\<close> is \<^verbatim>\<open>value in THEMES\<close>. \<^verbatim>\<open>THEMES\<close> is an object literal, so \<^verbatim>\<open>in\<close> finds
  its four own keys and the property names it inherits from \<^verbatim>\<open>Object.prototype\<close>.
\<close>

definition themeIds :: "string list" where
  "themeIds = [''light'', ''dark'', ''neon'', ''dawn'']"

definition objectPrototypeKeys :: "string list" where
  "objectPrototypeKeys =
     [''constructor'', ''__defineGetter__'', ''__defineSetter__'', ''hasOwnProperty'',
      ''__lookupGetter__'', ''__lookupSetter__'', ''isPrototypeOf'', ''propertyIsEnumerable'',
      ''toString'', ''valueOf'', ''__proto__'', ''toLocaleString'']"

definition isThemeId :: "string \<Rightarrow> bool" where
  "isThemeId value \<longleftrightarrow> value \<in> set themeIds \<or> value \<in> set objectPrototypeKeys"

text \<open>
  The record that \<^verbatim>\<open>loadSavedState\<close> returns. A width or height of \<open>None\<close> is \<^verbatim>\<open>NaN\<close>;
  \<open>saved_cells = None\<close> is \<^verbatim>\<open>null\<close>.
\<close>

record SavedState =
  saved_width :: "int option"
  saved_height :: "int option"
  saved_speed :: jsnum
  saved_wrap :: bool
  saved_theme :: string
  saved_cells :: "string option"

definition clampSpeed :: "jsnum \<Rightarrow> jsnum" where
  "clampSpeed n =
     (case n of
        Fin v \<Rightarrow> Fin (min 30 (max 1 v))
      | PosInf \<Rightarrow> Fin 30
      | NegInf \<Rightarrow> Fin 1
      | NaN \<Rightarrow> NaN)"

definition loadSavedState :: "(jsval \<Rightarrow> jsnum) \<Rightarrow> storage \<Rightarrow> SavedState option" where
  "loadSavedState coerce stored =
     (case stored of
        NoItem \<Rightarrow> None
      | Throws \<Rightarrow> None
      | ParsedNull \<Rightarrow> None
      | Parsed parsed \<Rightarrow>
          (let width = clampSizeJS (toNumber coerce (nullish (parsed_width parsed) (real_of_int DEFAULT_WIDTH)));
               height = clampSizeJS (toNumber coerce (nullish (parsed_height parsed) (real_of_int DEFAULT_HEIGHT)));
               themeValue = (case parsed_theme parsed of
                               JString t \<Rightarrow> (if isThemeId t then t else ''neon'')
                             | _ \<Rightarrow> ''neon'')
           in Some \<lparr>saved_width = width,
                    saved_height = height,
                    saved_speed = (case parsed_speed parsed of
                                     JNumber n \<Rightarrow> clampSpeed n
                                   | _ \<Rightarrow> Fin 8),
                    saved_wrap = (if parsed_wrap parsed \<noteq> JUndefined
                                  then toBoolean (parsed_wrap parsed) else True),
                    saved_theme = themeValue,
                    saved_cells = (case parsed_cells parsed of
                                     JString c \<Rightarrow> Some c
                                   | _ \<Rightarrow> None)\<rparr>))"

text \<open>
  The initial \<^verbatim>\<open>config\<close> of \<^verbatim>\<open>App\<close>, with the same reading of the fields as in
  \<open>SavedState\<close>.
\<close>

record initConfig =
  init_width :: "int option"
  init_height :: "int option"
  init_speed :: jsnum
  init_wrap :: bool
  init_theme :: string

definition initialConfig :: "SavedState option \<Rightarrow> initConfig" where
  "initialConfig saved =
     (case saved of
        None \<Rightarrow> \<lparr>init_width = Some DEFAULT_WIDTH, init_height = Some DEFAULT_HEIGHT,
                 init_speed = Fin 10, init_wrap = True, init_theme = ''neon''\<rparr>
      | Some sv \<Rightarrow> \<lparr>init_width = saved_width sv, init_height = saved_height sv,
                    init_speed = saved_speed sv, init_wrap = saved_wrap sv,
                    init_theme = saved_theme sv\<rparr>)"

text \<open>
  The initial board of \<^verbatim>\<open>App\<close>. A non-empty saved cell string is deserialized at the saved
  dimensions; otherwise the board is empty, at the saved dimensions when there is a record
  and at the default ones when there is none. With a \<^verbatim>\<open>NaN\<close> dimension the array length
  is \<^verbatim>\<open>NaN\<close>, which makes an array of length 0 that no loop iteration fills.
\<close>

definition initialCells :: "SavedState option \<Rightarrow> error + board" where
  "initialCells saved =
     (case saved of
        None \<Rightarrow> createEmptyBoard DEFAULT_WIDTH DEFAULT_HEIGHT
      | Some sv \<Rightarrow>
          (case (saved_width sv, saved_height sv) of
             (Some w, Some h) \<Rightarrow>
               (case saved_cells sv of
                  None \<Rightarrow> createEmptyBoard w h
                | Some c \<Rightarrow> if c \<noteq> [] then deserializeCells c w h else createEmptyBoard w h)
           | _ \<Rightarrow> Inr []))"

section \<open>Concrete inputs\<close>

text \<open>A sample source that alternates between 1/4 and 3/4.\<close>

definition sampleHalf :: "nat \<Rightarrow> real" where
  "sampleHalf i = (if even i then 1 / 4 else 3 / 4)"

text \<open>A paused 10 by 10 application state with an empty board, at generation 7.\<close>

definition demoApp :: app where
  "demoApp =
     \<lparr>config_width = 10, config_height = 10, config_speed = 8, config_wrap = True,
      cells = replicate 100 0, generation = 7, running = False, density = 32 / 100,
      draft_width = 10, draft_height = 10, lastFrame = 0, toast = None\<rparr>"

text \<open>
  The coercion of text that is not numeric, and of a plain object: \<^verbatim>\<open>NaN\<close>. It stands in
  for the runtime's coercion where the record holds no string or object in a numeric field.
\<close>

definition coerceNaN :: "jsval \<Rightarrow> jsnum" where
  "coerceNaN v = NaN"

text \<open>A stored record with a width and a height and nothing else.\<close>

definition sizeOnlyRecord :: parsedState where
  "sizeOnlyRecord =
     \<lparr>parsed_width = JNumber (Fin 50), parsed_height = JNumber (Fin 20),
      parsed_speed = JUndefined, parsed_wrap = JUndefined, parsed_theme = JUndefined,
      parsed_cells = JUndefined\<rparr>"

text \<open>
  A stored record with every field: an infinite width (a numeral beyond the double range),
  a fractional height, a speed above the range, wrap off, a known theme and four cells.
\<close>

definition fullRecord :: parsedState where
  "fullRecord =
     \<lparr>parsed_width = JNumber PosInf, parsed_height = JNumber (Fin (41 / 2)),
      parsed_speed = JNumber (Fin 45), parsed_wrap = JBool False,
      parsed_theme = JString ''dark'', parsed_cells = JString ''0110''\<rparr>"

text \<open>
  The double nearest to \<open>1000 / 3\<close>, which lies just below it, and a running state at speed 3.
\<close>

definition nearThird :: real where
  "nearThird = 5864062014805333 / 2 ^ 44"

definition thirdsApp :: app where
  "thirdsApp = demoApp\<lparr>config_speed := 3, running := True\<rparr>"
section \<open>Array reads and writes\<close>

lemma length_setCell [simp]: "length (setCell b i v) = length b"
  by (simp add: setCell_def)

lemma set_setCell: "set (setCell b i v) \<subseteq> insert v (set b)"
  using set_update_subset_insert [of b "nat i" v] by (auto simp: setCell_def)

lemma getCell_setCell:
  "getCell (setCell b i v) j =
     (if j = i \<and> 0 \<le> i \<and> i < int (length b) then Some v else getCell b j)"
  by (auto simp: getCell_def setCell_def nth_list_update)

lemma getCell_Some_iff: "getCell b i = Some v \<longleftrightarrow> 0 \<le> i \<and> i < int (length b) \<and> b ! nat i = v"
  by (auto simp: getCell_def)

text \<open>A loop that only writes cells: \<open>g\<close> gives the index, \<open>v\<close> the value written.\<close>

lemma length_foldl_setCell [simp]:
  "length (foldl (\<lambda>a k. setCell a (g k) (v k)) a ks) = length a"
  by (induction ks arbitrary: a) simp_all

lemma set_foldl_setCell:
  "set (foldl (\<lambda>a k. setCell a (g k) (v k)) a ks) \<subseteq> v ` set ks \<union> set a"
proof (induction ks arbitrary: a)
  case Nil
  then show ?case by simp
next
  case (Cons k ks)
  have "set (foldl (\<lambda>a k. setCell a (g k) (v k)) (setCell a (g k) (v k)) ks)
          \<subseteq> v ` set ks \<union> set (setCell a (g k) (v k))"
    by (rule Cons.IH)
  also have "\<dots> \<subseteq> v ` set ks \<union> insert (v k) (set a)"
    using set_setCell [of a "g k" "v k"] by blast
  finally show ?case by auto
qed

lemma getCell_foldl_setCell_miss:
  "\<forall>k \<in> set ks. g k \<noteq> i \<Longrightarrow>
   getCell (foldl (\<lambda>a k. setCell a (g k) (v k)) a ks) i = getCell a i"
  by (induction ks arbitrary: a) (simp_all add: getCell_setCell)

lemma getCell_foldl_setCell_hit:
  assumes "k \<in> set ks" and "\<forall>k' \<in> set ks. g k' = g k \<longrightarrow> v k' = v k"
    and "0 \<le> g k" and "g k < int (length a)"
  shows "getCell (foldl (\<lambda>a k. setCell a (g k) (v k)) a ks) (g k) = Some (v k)"
  using assms(1,2)
proof (induction ks rule: rev_induct)
  case Nil
  then show ?case by simp
next
  case (snoc k' ks)
  let ?r = "foldl (\<lambda>a k. setCell a (g k) (v k)) a ks"
  have step: "foldl (\<lambda>a k. setCell a (g k) (v k)) a (ks @ [k']) = setCell ?r (g k') (v k')"
    by simp
  show ?case
  proof (cases "g k' = g k")
    case True
    from snoc.prems(2) True have "v k' = v k" by simp
    moreover have "g k < int (length ?r)" using assms(4) by simp
    ultimately show ?thesis
      unfolding step using True assms(3) by (simp only: getCell_setCell if_True simp_thms)
  next
    case False
    from snoc.prems(1) False have mem: "k \<in> set ks" by auto
    from snoc.prems(2) have "\<forall>k' \<in> set ks. g k' = g k \<longrightarrow> v k' = v k" by simp
    with mem have "getCell ?r (g k) = Some (v k)" by (rule snoc.IH)
    moreover have "g k \<noteq> g k'" using False by simp
    ultimately show ?thesis
      unfolding step by (simp only: getCell_setCell if_False simp_thms)
  qed
qed

lemma foldl_nested_product:
  "foldl (\<lambda>a y. foldl (\<lambda>a x. f a y x) a xs) a ys
     = foldl (\<lambda>a (y, x). f a y x) a (List.product ys xs)"
proof (induction ys arbitrary: a)
  case Nil
  then show ?case by simp
next
  case (Cons y ys)
  have "foldl (\<lambda>a (y, x). f a y x) a (map (Pair y) xs) = foldl (\<lambda>a x. f a y x) a xs"
    by (simp add: foldl_map)
  with Cons show ?case by simp
qed

section \<open>Row-major indexing\<close>

lemma cell_index_bounds:
  fixes x y w h :: int
  assumes "0 \<le> x" "x < w" "0 \<le> y" "y < h"
  shows "0 \<le> y * w + x" and "y * w + x < w * h"
proof -
  from assms show "0 \<le> y * w + x" by simp
  have "y * w + x < y * w + w" using assms by simp
  also have "\<dots> = (y + 1) * w" by (simp add: algebra_simps)
  also have "\<dots> \<le> h * w" using assms by (intro mult_right_mono) auto
  finally show "y * w + x < w * h" by (simp add: mult.commute)
qed

lemma cell_index_inj:
  fixes x y x' y' w :: int
  assumes "0 \<le> x" "x < w" "0 \<le> x'" "x' < w" "y * w + x = y' * w + x'"
  shows "y = y' \<and> x = x'"
proof -
  have dy: "(y * w + x) div w = y" and my: "(y * w + x) mod w = x"
    using assms(1,2) by simp_all
  have dy': "(y' * w + x') div w = y'" and my': "(y' * w + x') mod w = x'"
    using assms(3,4) by simp_all
  from dy dy' my my' assms(5) show ?thesis by simp
qed

section \<open>Counting neighbours\<close>

lemma wrap_coord_mod:
  fixes x d w :: int
  assumes "0 \<le> x" "x < w" "d = -1 \<or> d = 0 \<or> d = 1"
  shows "(let n1 = (if x + d < 0 then w - 1 else x + d) in if n1 \<ge> w then 0 else n1) = (x + d) mod w"
proof -
  consider "x + d = -1" | "x + d = w" | "0 \<le> x + d" "x + d < w"
    using assms by linarith
  then show ?thesis
  proof cases
    case 1
    have "(-1) mod w = w - 1" using assms(1,2) by (simp add: zmod_minus1)
    with 1 assms show ?thesis by (simp add: Let_def)
  next
    case 2
    with assms show ?thesis by (simp add: Let_def)
  next
    case 3
    then show ?thesis by (simp add: Let_def)
  qed
qed

lemma getCell_in_range:
  assumes "int (length b) = w * h" "0 \<le> x" "x < w" "0 \<le> y" "y < h"
  shows "getCell b (y * w + x) = Some (b ! nat (y * w + x))"
  using cell_index_bounds [OF assms(2-5)] assms(1) by (simp add: getCell_def)

lemma neighborVisit_value:
  assumes len: "int (length b) = w * h" and x: "0 \<le> x" "x < w" and y: "0 \<le> y" "y < h"
    and dx: "dx = -1 \<or> dx = 0 \<or> dx = 1" and dy: "dy = -1 \<or> dy = 0 \<or> dy = 1"
  shows "neighborVisit b w h wrap x y dy dx (Some n) =
           Some (if dx = 0 \<and> dy = 0 then n else n + neighborValue b w h wrap (x + dx) (y + dy))"
proof (cases "dx = 0 \<and> dy = 0")
  case True
  then show ?thesis by (simp add: neighborVisit_def)
next
  case False
  then have nz: "(dx = 0 \<and> dy = 0) = False" by simp
  show ?thesis
  proof (cases wrap)
    case True
    have wx: "(let n1 = (if x + dx < 0 then w - 1 else x + dx) in if n1 \<ge> w then 0 else n1) = (x + dx) mod w"
      by (rule wrap_coord_mod [OF x dx])
    have wy: "(let n1 = (if y + dy < 0 then h - 1 else y + dy) in if n1 \<ge> h then 0 else n1) = (y + dy) mod h"
      by (rule wrap_coord_mod [OF y dy])
    have w: "0 < w" and h: "0 < h" using x y by auto
    have rx: "0 \<le> (x + dx) mod w" "(x + dx) mod w < w" using w by simp_all
    have ry: "0 \<le> (y + dy) mod h" "(y + dy) mod h < h" using h by simp_all
    have g: "getCell b ((y + dy) mod h * w + (x + dx) mod w)
              = Some (b ! nat ((y + dy) mod h * w + (x + dx) mod w))"
      by (rule getCell_in_range [OF len rx ry])
    have "neighborVisit b w h wrap x y dy dx (Some n)
            = addCell (Some n) (getCell b ((y + dy) mod h * w + (x + dx) mod w))"
      using True wx wy by (simp add: neighborVisit_def Let_def nz)
    also have "\<dots> = Some (n + neighborValue b w h wrap (x + dx) (y + dy))"
      using True by (simp add: g addCell_def neighborValue_def cellAt_def)
    finally show ?thesis by (simp add: nz)
  next
    case nowrap: False
    show ?thesis
    proof (cases "0 \<le> x + dx \<and> x + dx < w \<and> 0 \<le> y + dy \<and> y + dy < h")
      case True
      then have g: "getCell b ((y + dy) * w + (x + dx)) = Some (b ! nat ((y + dy) * w + (x + dx)))"
        using getCell_in_range [OF len, of "x + dx" "y + dy"] by simp
      have "neighborVisit b w h wrap x y dy dx (Some n)
              = addCell (Some n) (getCell b ((y + dy) * w + (x + dx)))"
        using nowrap True by (simp add: neighborVisit_def Let_def nz)
      also have "\<dots> = Some (n + neighborValue b w h wrap (x + dx) (y + dy))"
        using nowrap True by (simp add: g addCell_def neighborValue_def cellAt_def)
      finally show ?thesis by (simp add: nz)
    next
      case out: False
      have "neighborVisit b w h wrap x y dy dx (Some n) = Some n"
        using nowrap out by (auto simp add: neighborVisit_def Let_def nz)
      moreover have "neighborValue b w h wrap (x + dx) (y + dy) = 0"
        using nowrap out by (auto simp add: neighborValue_def)
      ultimately show ?thesis by (simp add: nz)
    qed
  qed
qed

lemma countNeighbors_liveNeighbors:
  assumes len: "int (length b) = w * h" and x: "0 \<le> x" "x < w" and y: "0 \<le> y" "y < h"
  shows "countNeighbors b w h wrap x y = Some (liveNeighbors b w h wrap x y)"
  by (simp add: countNeighbors_def liveNeighbors_def mooreOffsets_def
      neighborVisit_value [OF len x y])

section \<open>One generation\<close>

lemma updateCell_setCell:
  "updateCell b w h wrap next y x =
     setCell next (y * w + x)
       (if truthy (getCell b (y * w + x))
        then (if countNeighbors b w h wrap x y = Some 2 \<or> countNeighbors b w h wrap x y = Some 3
              then 1 else 0)
        else (if countNeighbors b w h wrap x y = Some 3 then 1 else 0))"
  by (simp add: updateCell_def Let_def)

lemma computeNext_flat:
  "computeNext b w h wrap =
     foldl (\<lambda>a k. setCell a (fst k * w + snd k)
                    (if truthy (getCell b (fst k * w + snd k))
                     then (if countNeighbors b w h wrap (snd k) (fst k) = Some 2
                             \<or> countNeighbors b w h wrap (snd k) (fst k) = Some 3 then 1 else 0)
                     else (if countNeighbors b w h wrap (snd k) (fst k) = Some 3 then 1 else 0)))
       (replicate (length b) 0) (List.product [0..h - 1] [0..w - 1])"
  unfolding computeNext_def foldl_nested_product updateCell_setCell
  by (simp add: split_def)

lemma length_computeNext: "length (computeNext b w h wrap) = length b"
  unfolding computeNext_flat by simp

lemma set_computeNext: "set (computeNext b w h wrap) \<subseteq> {0, 1}"
proof -
  let ?v = "\<lambda>k. (if truthy (getCell b (fst k * w + snd k))
                     then (if countNeighbors b w h wrap (snd k) (fst k) = Some 2
                             \<or> countNeighbors b w h wrap (snd k) (fst k) = Some 3 then 1 else 0)
                     else (if countNeighbors b w h wrap (snd k) (fst k) = Some 3 then 1 else 0)) :: byte"
  have "set (computeNext b w h wrap)
          \<subseteq> ?v ` set (List.product [0..h - 1] [0..w - 1]) \<union> set (replicate (length b) 0)"
    unfolding computeNext_flat by (rule set_foldl_setCell)
  moreover have "?v ` set (List.product [0..h - 1] [0..w - 1]) \<subseteq> {0, 1}" by auto
  moreover have "set (replicate (length b) (0::byte)) \<subseteq> {0, 1}" by auto
  ultimately show ?thesis by blast
qed

lemma getCell_computeNext:
  assumes len: "int (length b) = w * h" and x: "0 \<le> x" "x < w" and y: "0 \<le> y" "y < h"
  shows "getCell (computeNext b w h wrap) (y * w + x) =
           Some (conway (cellAt b w x y) (liveNeighbors b w h wrap x y))"
proof -
  let ?g = "\<lambda>k::int \<times> int. fst k * w + snd k"
  let ?v = "\<lambda>k. (if truthy (getCell b (fst k * w + snd k))
                     then (if countNeighbors b w h wrap (snd k) (fst k) = Some 2
                             \<or> countNeighbors b w h wrap (snd k) (fst k) = Some 3 then 1 else 0)
                     else (if countNeighbors b w h wrap (snd k) (fst k) = Some 3 then 1 else 0)) :: byte"
  let ?ks = "List.product [0..h - 1] [0..w - 1]"
  have mem: "(y, x) \<in> set ?ks" using x y by simp
  have same: "\<forall>k' \<in> set ?ks. ?g k' = ?g (y, x) \<longrightarrow> ?v k' = ?v (y, x)"
  proof (intro ballI impI)
    fix k' assume k': "k' \<in> set ?ks" and eq: "?g k' = ?g (y, x)"
    from k' have "0 \<le> snd k'" "snd k' < w" by auto
    with eq x have "fst k' = y \<and> snd k' = x"
      using cell_index_inj [of "snd k'" w x "fst k'" y] by simp
    then show "?v k' = ?v (y, x)" by simp
  qed
  have b1: "0 \<le> ?g (y, x)" and b2: "?g (y, x) < int (length (replicate (length b) (0::byte)))"
    using cell_index_bounds [OF x y] len by simp_all
  have "getCell (foldl (\<lambda>a k. setCell a (?g k) (?v k)) (replicate (length b) 0) ?ks) (?g (y, x))
          = Some (?v (y, x))"
    by (rule getCell_foldl_setCell_hit [OF mem same b1 b2])
  then have "getCell (computeNext b w h wrap) (y * w + x) = Some (?v (y, x))"
    unfolding computeNext_flat by simp
  also have "?v (y, x) = conway (cellAt b w x y) (liveNeighbors b w h wrap x y)"
    by (simp add: countNeighbors_liveNeighbors [OF len x y] getCell_in_range [OF len x y]
        truthy_def conway_def cellAt_def unat_eq_0)
  finally show ?thesis .
qed

lemma validBoard_cell:
  assumes "validBoard b w h" "0 \<le> x" "x < w" "0 \<le> y" "y < h"
  shows "cellAt b w x y = 0 \<or> cellAt b w x y = 1"
proof -
  from assms(1) have len: "int (length b) = w * h" and all: "\<forall>c \<in> set b. c = 0 \<or> c = 1"
    by (simp_all add: validBoard_def list_all_iff)
  from cell_index_bounds [OF assms(2-5)] len have "nat (y * w + x) < length b" by simp
  then have "b ! nat (y * w + x) \<in> set b" by (rule nth_mem)
  with all have "b ! nat (y * w + x) = 0 \<or> b ! nat (y * w + x) = 1" by blast
  then show ?thesis by (auto simp: cellAt_def)
qed

lemma neighborValue_le_1:
  assumes "validBoard b w h"
  shows "neighborValue b w h False nx ny \<le> 1"
proof (cases "0 \<le> nx \<and> nx < w \<and> 0 \<le> ny \<and> ny < h")
  case True
  with validBoard_cell [OF assms, of nx ny] show ?thesis
    by (auto simp: neighborValue_def)
next
  case False
  then show ?thesis by (auto simp: neighborValue_def)
qed

text \<open>
  C1. On a board that satisfies the invariant, \<open>computeNext\<close> applies B3/S23 to every
  cell, in either boundary mode: a live cell is live in the next generation exactly when
  it has 2 or 3 live neighbours, a dead cell exactly when it has 3, and every other cell
  becomes 0; so a cell with exactly 3 live neighbours is live whatever its state.
\<close>

theorem computeNext_conway_rule:
  assumes "validBoard b w h" and "0 \<le> x" and "x < w" and "0 \<le> y" and "y < h"
  shows "(cellAt b w x y = 1 \<or> cellAt b w x y = 0)
       \<and> (cellAt b w x y = 1 \<longrightarrow>
            getCell (computeNext b w h wrap) (y * w + x) =
              Some (if liveNeighbors b w h wrap x y = 2 \<or> liveNeighbors b w h wrap x y = 3
                    then 1 else 0))
       \<and> (cellAt b w x y = 0 \<longrightarrow>
            getCell (computeNext b w h wrap) (y * w + x) =
              Some (if liveNeighbors b w h wrap x y = 3 then 1 else 0))
       \<and> (liveNeighbors b w h wrap x y = 3 \<longrightarrow>
            getCell (computeNext b w h wrap) (y * w + x) = Some 1)"
proof -
  from assms(1) have len: "int (length b) = w * h" by (simp add: validBoard_def)
  have next_cell: "getCell (computeNext b w h wrap) (y * w + x) =
      Some (conway (cellAt b w x y) (liveNeighbors b w h wrap x y))"
    by (rule getCell_computeNext [OF len assms(2-5)])
  have "cellAt b w x y = 0 \<or> cellAt b w x y = 1"
    by (rule validBoard_cell [OF assms])
  then show ?thesis
    unfolding next_cell by (auto simp: conway_def)
qed

theorem computeNext_conway_rule_witness:
  "validBoard [0, 1, 0, 0, 1, 0, 0, 1, 0] 3 3
   \<and> cellAt [0, 1, 0, 0, 1, 0, 0, 1, 0] 3 0 1 = 0
   \<and> liveNeighbors [0, 1, 0, 0, 1, 0, 0, 1, 0] 3 3 False 0 1 = 3
   \<and> getCell (computeNext [0, 1, 0, 0, 1, 0, 0, 1, 0] 3 3 False) (1 * 3 + 0) = Some 1
   \<and> cellAt [0, 1, 0, 0, 1, 0, 0, 1, 0] 3 1 0 = 1
   \<and> liveNeighbors [0, 1, 0, 0, 1, 0, 0, 1, 0] 3 3 False 1 0 = 1
   \<and> getCell (computeNext [0, 1, 0, 0, 1, 0, 0, 1, 0] 3 3 False) (0 * 3 + 1) = Some 0"
proof -
  let ?b = "[0, 1, 0, 0, 1, 0, 0, 1, 0] :: board"
  have v: "validBoard ?b 3 3" by (simp add: validBoard_def)
  have c1: "cellAt ?b 3 0 1 = 0" by (simp add: cellAt_def)
  have n1: "liveNeighbors ?b 3 3 False 0 1 = 3" by code_simp
  have c2: "cellAt ?b 3 1 0 = 1" by (simp add: cellAt_def)
  have n2: "liveNeighbors ?b 3 3 False 1 0 = 1" by code_simp
  have r1: "getCell (computeNext ?b 3 3 False) (1 * 3 + 0) = Some 1"
    using computeNext_conway_rule [OF v, of 0 1 False] n1 by simp
  have r2: "getCell (computeNext ?b 3 3 False) (0 * 3 + 1) = Some 0"
    using computeNext_conway_rule [OF v, of 1 0 False] c2 n2 by simp
  from v c1 n1 r1 c2 n2 r2 show ?thesis by blast
qed

text \<open>
  C2. The count that \<open>computeNext\<close> makes for a cell is the sum over the eight Moore
  offsets of what \<open>neighborValue\<close> says each neighbour contributes: under wrap the cell
  at the coordinates taken modulo the dimensions, without wrap nothing for a coordinate
  off the board. In particular, under wrap the cell \<open>(width - 1, height - 1)\<close> is counted
  for \<open>(0, 0)\<close>, and without wrap the corner \<open>(0, 0)\<close> counts at most 3.
\<close>

theorem countNeighbors_moore:
  assumes "validBoard b w h" and "0 \<le> x" and "x < w" and "0 \<le> y" and "y < h"
  shows "countNeighbors b w h wrap x y = Some (liveNeighbors b w h wrap x y)
       \<and> neighborValue b w h True (- 1) ny = neighborValue b w h True (w - 1) ny
       \<and> neighborValue b w h True w ny = neighborValue b w h True 0 ny
       \<and> (\<exists>n. countNeighbors b w h True 0 0 = Some n \<and> cellAt b w (w - 1) (h - 1) \<le> n)
       \<and> (\<exists>n. countNeighbors b w h False 0 0 = Some n \<and> n \<le> 3)"
proof -
  from assms(1) have len: "int (length b) = w * h" and w: "0 < w" and h: "0 < h"
    by (simp_all add: validBoard_def)
  have m1w: "(- 1) mod w = w - 1" and m1h: "(- 1) mod h = h - 1"
    using w h by (simp_all add: zmod_minus1)
  have count: "countNeighbors b w h wrap x y = Some (liveNeighbors b w h wrap x y)"
    by (rule countNeighbors_liveNeighbors [OF len assms(2-5)])
  have left: "neighborValue b w h True (- 1) ny = neighborValue b w h True (w - 1) ny"
    using w by (simp add: neighborValue_def m1w)
  have right: "neighborValue b w h True w ny = neighborValue b w h True 0 ny"
    by (simp add: neighborValue_def)
  have c0t: "countNeighbors b w h True 0 0 = Some (liveNeighbors b w h True 0 0)"
    using w h by (intro countNeighbors_liveNeighbors [OF len]) simp_all
  have "neighborValue b w h True (- 1) (- 1) \<le> liveNeighbors b w h True 0 0"
    by (simp add: liveNeighbors_def mooreOffsets_def)
  moreover have "neighborValue b w h True (- 1) (- 1) = cellAt b w (w - 1) (h - 1)"
    by (simp add: neighborValue_def m1w m1h)
  ultimately have torus: "cellAt b w (w - 1) (h - 1) \<le> liveNeighbors b w h True 0 0" by simp
  have c0f: "countNeighbors b w h False 0 0 = Some (liveNeighbors b w h False 0 0)"
    using w h by (intro countNeighbors_liveNeighbors [OF len]) simp_all
  have off: "neighborValue b w h False (- 1) k = 0" "neighborValue b w h False k (- 1) = 0" for k
    by (simp_all add: neighborValue_def)
  have "liveNeighbors b w h False 0 0 =
          neighborValue b w h False 1 0 + neighborValue b w h False 0 1 + neighborValue b w h False 1 1"
    by (simp add: liveNeighbors_def mooreOffsets_def off)
  also have "\<dots> \<le> 3"
    using neighborValue_le_1 [OF assms(1), of 1 0] neighborValue_le_1 [OF assms(1), of 0 1]
      neighborValue_le_1 [OF assms(1), of 1 1] by linarith
  finally have corner: "liveNeighbors b w h False 0 0 \<le> 3" .
  from count left right c0t torus c0f corner show ?thesis by simp
qed

theorem countNeighbors_moore_witness:
  "validBoard [0, 0, 0, 0, 0, 0, 0, 0, 1] 3 3
   \<and> countNeighbors [0, 0, 0, 0, 0, 0, 0, 0, 1] 3 3 True 0 0 = Some 1
   \<and> liveNeighbors [0, 0, 0, 0, 0, 0, 0, 0, 1] 3 3 True 0 0 = 1
   \<and> countNeighbors [0, 0, 0, 0, 0, 0, 0, 0, 1] 3 3 False 0 0 = Some 0
   \<and> liveNeighbors [0, 0, 0, 0, 0, 0, 0, 0, 1] 3 3 False 0 0 = 0"
proof -
  let ?b = "[0, 0, 0, 0, 0, 0, 0, 0, 1] :: board"
  have v: "validBoard ?b 3 3" by (simp add: validBoard_def)
  have n1: "liveNeighbors ?b 3 3 True 0 0 = 1" by code_simp
  have n2: "liveNeighbors ?b 3 3 False 0 0 = 0" by code_simp
  have r1: "countNeighbors ?b 3 3 True 0 0 = Some 1"
    using countNeighbors_moore [OF v, of 0 0 True] n1 by simp
  have r2: "countNeighbors ?b 3 3 False 0 0 = Some 0"
    using countNeighbors_moore [OF v, of 0 0 False] n2 by simp
  from v n1 n2 r1 r2 show ?thesis by blast
qed

section \<open>Filling an array from the front\<close>

text \<open>A loop \<^verbatim>\<open>for (i = 0; i < m; i++) a[i] = v(i)\<close>.\<close>

lemma getCell_foldl_upto:
  assumes "0 \<le> i" and "i < int (length a)"
  shows "getCell (foldl (\<lambda>a k. setCell a k (v k)) a [0..m - 1]) i
           = Some (if i < m then v i else a ! nat i)"
proof (cases "i < m")
  case True
  have mem: "i \<in> set [0..m - 1]" using assms(1) True by simp
  have same: "\<forall>k' \<in> set [0..m - 1]. k' = i \<longrightarrow> v k' = v i" by simp
  have "getCell (foldl (\<lambda>a k. setCell a ((\<lambda>k. k) k) (v k)) a [0..m - 1]) ((\<lambda>k. k) i) = Some (v i)"
    by (rule getCell_foldl_setCell_hit) (use mem same assms in simp_all)
  with True show ?thesis by simp
next
  case False
  have "\<forall>k \<in> set [0..m - 1]. (\<lambda>k. k) k \<noteq> i" using False by auto
  then have "getCell (foldl (\<lambda>a k. setCell a ((\<lambda>k. k) k) (v k)) a [0..m - 1]) i = getCell a i"
    by (rule getCell_foldl_setCell_miss)
  with False assms show ?thesis by (simp add: getCell_def)
qed

lemma nth_foldl_upto:
  assumes "i < length a"
  shows "foldl (\<lambda>a k. setCell a k (v k)) a [0..m - 1] ! i
           = (if int i < m then v (int i) else a ! i)"
proof -
  have "getCell (foldl (\<lambda>a k. setCell a k (v k)) a [0..m - 1]) (int i)
           = Some (if int i < m then v (int i) else a ! nat (int i))"
    using assms by (intro getCell_foldl_upto) simp_all
  then show ?thesis by (simp add: getCell_Some_iff)
qed

lemma set_foldl_upto:
  "set (foldl (\<lambda>a k. setCell a k (v k)) a ks) \<subseteq> v ` set ks \<union> set a"
  using set_foldl_setCell [of "\<lambda>k. k" v a ks] by simp

lemma length_foldl_upto [simp]:
  "length (foldl (\<lambda>a k. setCell a k (v k)) a ks) = length a"
  using length_foldl_setCell [of "\<lambda>k. k" v a ks] by simp

lemma newUint8Array_nonneg: "0 \<le> n \<Longrightarrow> newUint8Array n = Inr (replicate (nat n) 0)"
  by (simp add: newUint8Array_def)

text \<open>
  C10. For non-negative dimensions \<open>deserializeCells\<close> returns an array of exactly
  \<open>width * height\<close> cells, each 0 or 1: cell \<open>i\<close> is 1 exactly when the \<open>i\<close>-th of the
  characters left after stripping is \<open>1\<close>, and 0 when the stripped string is too short.
  Characters of the stripped string from position \<open>width * height\<close> on are never read:
  cutting them off beforehand gives the same array.
\<close>

theorem deserializeCells_length_bits:
  assumes "0 \<le> width" and "0 \<le> height"
  shows "\<exists>arr. deserializeCells raw width height = Inr arr
           \<and> int (length arr) = width * height
           \<and> list_all (\<lambda>c. c = 0 \<or> c = 1) arr
           \<and> (\<forall>i < length arr.
                 arr ! i = (if i < length (filter (\<lambda>c. c = CHR ''0'' \<or> c = CHR ''1'') raw)
                            then (if filter (\<lambda>c. c = CHR ''0'' \<or> c = CHR ''1'') raw ! i = CHR ''1''
                                  then 1 else 0)
                            else 0))
           \<and> deserializeCells (take (nat (width * height))
                 (filter (\<lambda>c. c = CHR ''0'' \<or> c = CHR ''1'') raw)) width height = Inr arr"
proof -
  let ?is01 = "\<lambda>c. c = CHR ''0'' \<or> c = CHR ''1''"
  let ?total = "width * height"
  have total: "0 \<le> ?total" using assms by simp
  define fill :: "string \<Rightarrow> board" where
    "fill n = foldl (\<lambda>arr i. setCell arr i (if n ! nat i = CHR ''1'' then 1 else 0))
                (replicate (nat ?total) 0) [0..min ?total (int (length n)) - 1]" for n
  have des: "deserializeCells r width height = Inr (fill (filter ?is01 r))" for r
    by (simp add: deserializeCells_def Let_def newUint8Array_nonneg [OF total] fill_def)
  have len: "length (fill n) = nat ?total" for n
    by (simp add: fill_def)
  have nth: "fill n ! i = (if i < length n then (if n ! i = CHR ''1'' then 1 else 0) else 0)"
    if "i < nat ?total" for n i
    using that unfolding fill_def by (subst nth_foldl_upto) auto
  have bits: "list_all (\<lambda>c. c = 0 \<or> c = 1) (fill n)" for n
    unfolding list_all_length using nth len by simp
  let ?norm = "filter ?is01 raw"
  have idem: "filter ?is01 (take (nat ?total) ?norm) = take (nat ?total) ?norm"
    by (rule filter_True) (auto dest: in_set_takeD)
  have cut: "fill (take (nat ?total) ?norm) = fill ?norm"
    by (rule nth_equalityI) (auto simp: len nth)
  have "deserializeCells (take (nat ?total) ?norm) width height = Inr (fill ?norm)"
    by (simp add: des idem cut)
  with des [of raw] len [of ?norm] bits [of ?norm] nth [of _ ?norm] total
  show ?thesis by (intro exI [of _ "fill ?norm"]) simp
qed

theorem deserializeCells_length_bits_witness:
  "(0::int) \<le> 2 \<and> (0::int) \<le> 3
   \<and> deserializeCells ''01x10111'' 2 3 = Inr [0, 1, 1, 0, 1, 1]
   \<and> deserializeCells ''1a'' 2 3 = Inr [1, 0, 0, 0, 0, 0]
   \<and> (\<exists>arr. deserializeCells ''01x10111'' 2 3 = Inr arr \<and> int (length arr) = 2 * 3
          \<and> list_all (\<lambda>c. c = 0 \<or> c = 1) arr)"
proof -
  have a: "deserializeCells ''01x10111'' 2 3 = Inr [0, 1, 1, 0, 1, 1]" by code_simp
  have b: "deserializeCells ''1a'' 2 3 = Inr [1, 0, 0, 0, 0, 0]" by code_simp
  have h: "(0::int) \<le> 2" "(0::int) \<le> 3" by simp_all
  have "\<exists>arr. deserializeCells ''01x10111'' 2 3 = Inr arr \<and> int (length arr) = 2 * 3
          \<and> list_all (\<lambda>c. c = 0 \<or> c = 1) arr"
    using deserializeCells_length_bits [OF h, of "''01x10111''"] by blast
  with a b h show ?thesis by simp
qed


section \<open>Random boards\<close>

lemma randomBoard_fill:
  assumes "0 \<le> width" and "0 \<le> height"
  shows "\<exists>next. randomBoard rnd width height dens = Inr next
           \<and> int (length next) = width * height
           \<and> (\<forall>i < length next. next ! i = (if rnd i < dens then 1 else 0))"
proof -
  let ?total = "width * height"
  have total: "0 \<le> ?total" using assms by simp
  let ?next = "foldl (\<lambda>next i. setCell next i (if rnd (nat i) < dens then 1 else 0))
                 (replicate (nat ?total) 0) [0..int (length (replicate (nat ?total) (0::byte))) - 1]"
  have r: "randomBoard rnd width height dens = Inr ?next"
    by (simp add: randomBoard_def newUint8Array_nonneg [OF total])
  have len: "length ?next = nat ?total" by simp
  have nth: "?next ! i = (if rnd i < dens then 1 else 0)" if "i < nat ?total" for i
    using that by (subst nth_foldl_upto) auto
  from r len nth total show ?thesis by (intro exI [of _ ?next]) simp
qed

text \<open>
  C8. For non-negative dimensions and samples in \<open>[0, 1)\<close>, \<open>randomBoard\<close> with dens 0
  returns the all-dead board and with dens 1 the all-live board; in general cell \<open>i\<close> is
  1 exactly when its own sample \<open>rnd i\<close> is below the dens.
\<close>

theorem randomBoard_density:
  assumes "0 \<le> width" and "0 \<le> height" and "\<forall>i. 0 \<le> rnd i \<and> rnd i < 1"
  shows "randomBoard rnd width height 0 = Inr (replicate (nat (width * height)) 0)
       \<and> randomBoard rnd width height 1 = Inr (replicate (nat (width * height)) 1)
       \<and> (\<exists>next. randomBoard rnd width height dens = Inr next
             \<and> int (length next) = width * height
             \<and> (\<forall>i < length next. next ! i = (if rnd i < dens then 1 else 0)))"
proof -
  obtain dead where dead: "randomBoard rnd width height 0 = Inr dead"
      "int (length dead) = width * height"
      "\<forall>i < length dead. dead ! i = (if rnd i < 0 then 1 else 0)"
    using randomBoard_fill [OF assms(1,2), of rnd 0] by blast
  obtain live where live: "randomBoard rnd width height 1 = Inr live"
      "int (length live) = width * height"
      "\<forall>i < length live. live ! i = (if rnd i < 1 then 1 else 0)"
    using randomBoard_fill [OF assms(1,2), of rnd 1] by blast
  have "dead = replicate (nat (width * height)) 0"
    using dead(2,3) assms(3) by (intro nth_equalityI) (auto simp: not_less [symmetric])
  moreover have "live = replicate (nat (width * height)) 1"
    using live(2,3) assms(3) by (intro nth_equalityI) auto
  ultimately show ?thesis
    using dead(1) live(1) randomBoard_fill [OF assms(1,2), of rnd dens] by simp
qed

theorem randomBoard_density_witness:
  "(0::int) \<le> 2 \<and> (0::int) \<le> 2 \<and> (\<forall>i. 0 \<le> sampleHalf i \<and> sampleHalf i < 1)
   \<and> randomBoard sampleHalf 2 2 0 = Inr [0, 0, 0, 0]
   \<and> randomBoard sampleHalf 2 2 1 = Inr [1, 1, 1, 1]
   \<and> randomBoard sampleHalf 2 2 (1 / 2) = Inr [1, 0, 1, 0]"
proof -
  have s: "\<forall>i. 0 \<le> sampleHalf i \<and> sampleHalf i < 1" by (simp add: sampleHalf_def)
  have r: "replicate 4 (v::byte) = [v, v, v, v]" for v
    by (simp add: numeral_eq_Suc)
  have d: "randomBoard sampleHalf 2 2 0 = Inr [0, 0, 0, 0]"
      "randomBoard sampleHalf 2 2 1 = Inr [1, 1, 1, 1]"
    using randomBoard_density [of 2 2 sampleHalf, OF _ _ s] by (simp_all add: r)
  have h: "randomBoard sampleHalf 2 2 (1 / 2) = Inr [1, 0, 1, 0]" by code_simp
  from s d h show ?thesis by simp
qed

section \<open>Resizing\<close>

lemma createEmptyBoard_nonneg:
  "0 \<le> width \<Longrightarrow> 0 \<le> height \<Longrightarrow>
   createEmptyBoard width height = Inr (replicate (nat (width * height)) 0)"
  by (simp add: createEmptyBoard_def newUint8Array_nonneg)

lemma getCell_replicate:
  "0 \<le> i \<Longrightarrow> i < n \<Longrightarrow> getCell (replicate (nat n) v) i = Some v"
  by (auto simp: getCell_def)

lemma resizeCells_flat:
  assumes "0 \<le> width" and "0 \<le> height"
  shows "resizeCells prev oldWidth oldHeight width height =
     Inr (foldl (\<lambda>a k. setCell a (fst k * width + snd k)
                   (case getCell prev (fst k * oldWidth + snd k) of None \<Rightarrow> 0 | Some v \<Rightarrow> v))
            (replicate (nat (width * height)) 0)
            (List.product [0..min oldHeight height - 1] [0..min oldWidth width - 1]))"
  unfolding resizeCells_def createEmptyBoard_nonneg [OF assms] foldl_nested_product
  by (simp add: split_def Let_def)

lemma resizeCells_cell:
  assumes len: "int (length prev) = oldWidth * oldHeight"
    and new: "0 \<le> width" "0 \<le> height"
    and x: "0 \<le> x" "x < width" and y: "0 \<le> y" "y < height"
    and r: "resizeCells prev oldWidth oldHeight width height = Inr next"
  shows "getCell next (y * width + x) =
           Some (if x < min oldWidth width \<and> y < min oldHeight height
                 then prev ! nat (y * oldWidth + x) else 0)"
proof -
  let ?g = "\<lambda>k::int \<times> int. fst k * width + snd k"
  let ?v = "\<lambda>k::int \<times> int. case getCell prev (fst k * oldWidth + snd k) of None \<Rightarrow> 0 | Some v \<Rightarrow> v"
  let ?ks = "List.product [0..min oldHeight height - 1] [0..min oldWidth width - 1]"
  let ?zero = "replicate (nat (width * height)) (0::byte)"
  have nx: "next = foldl (\<lambda>a k. setCell a (?g k) (?v k)) ?zero ?ks"
    using r unfolding resizeCells_flat [OF new] by simp
  have b1: "0 \<le> ?g (y, x)" and b2: "?g (y, x) < int (length ?zero)"
    using cell_index_bounds [OF x y] by simp_all
  have inj: "fst k = y \<and> snd k = x" if "k \<in> set ?ks" "?g k = ?g (y, x)" for k
  proof -
    from that(1) have "0 \<le> snd k" "snd k < width" by auto
    with that(2) x show ?thesis
      using cell_index_inj [of "snd k" width x "fst k" y] by simp
  qed
  show ?thesis
  proof (cases "x < min oldWidth width \<and> y < min oldHeight height")
    case True
    have mem: "(y, x) \<in> set ?ks" using True x y by simp
    have same: "\<forall>k' \<in> set ?ks. ?g k' = ?g (y, x) \<longrightarrow> ?v k' = ?v (y, x)"
    proof (intro ballI impI)
      fix k' assume "k' \<in> set ?ks" and "?g k' = ?g (y, x)"
      then have "fst k' = y \<and> snd k' = x" by (rule inj)
      then show "?v k' = ?v (y, x)" by simp
    qed
    have "getCell (foldl (\<lambda>a k. setCell a (?g k) (?v k)) ?zero ?ks) (?g (y, x)) = Some (?v (y, x))"
      by (rule getCell_foldl_setCell_hit [OF mem same b1 b2])
    moreover have "getCell prev (y * oldWidth + x) = Some (prev ! nat (y * oldWidth + x))"
      using True x y by (intro getCell_in_range [OF len]) simp_all
    ultimately show ?thesis using True nx by simp
  next
    case False
    have "\<forall>k \<in> set ?ks. ?g k \<noteq> ?g (y, x)"
    proof
      fix k assume k: "k \<in> set ?ks"
      show "?g k \<noteq> ?g (y, x)"
      proof
        assume "?g k = ?g (y, x)"
        from inj [OF k this] k have "x < min oldWidth width \<and> y < min oldHeight height" by auto
        with False show False by simp
      qed
    qed
    then have "getCell (foldl (\<lambda>a k. setCell a (?g k) (?v k)) ?zero ?ks) (?g (y, x))
                 = getCell ?zero (?g (y, x))"
      by (rule getCell_foldl_setCell_miss)
    also have "\<dots> = Some 0"
      using cell_index_bounds [OF x y] by (intro getCell_replicate) simp_all
    finally show ?thesis using False nx by auto
  qed
qed

lemma resizeCells_length:
  assumes "0 \<le> width" and "0 \<le> height"
  shows "\<exists>next. resizeCells prev oldWidth oldHeight width height = Inr next
           \<and> int (length next) = width * height"
  unfolding resizeCells_flat [OF assms] using assms by simp

text \<open>
  C4. Resizing a board of \<open>oldWidth \<times> oldHeight\<close> cells to \<open>width \<times> height\<close> returns a
  board of \<open>width * height\<close> cells in which cell \<open>(x, y)\<close> is the old cell \<open>(x, y)\<close> when
  \<open>x < min oldWidth width\<close> and \<open>y < min oldHeight height\<close>, and 0 otherwise.
\<close>

theorem resizeCells_overlap:
  assumes "int (length prev) = oldWidth * oldHeight"
    and "0 \<le> width" and "0 \<le> height"
  shows "\<exists>next. resizeCells prev oldWidth oldHeight width height = Inr next
           \<and> int (length next) = width * height
           \<and> (\<forall>x y. 0 \<le> x \<and> x < width \<and> 0 \<le> y \<and> y < height \<longrightarrow>
                 getCell next (y * width + x) =
                   Some (if x < min oldWidth width \<and> y < min oldHeight height
                         then prev ! nat (y * oldWidth + x) else 0))"
proof -
  obtain res where r: "resizeCells prev oldWidth oldHeight width height = Inr res"
    and l: "int (length res) = width * height"
    using resizeCells_length [OF assms(2,3)] by blast
  have "getCell res (y * width + x) =
          Some (if x < min oldWidth width \<and> y < min oldHeight height
                then prev ! nat (y * oldWidth + x) else 0)"
    if "0 \<le> x \<and> x < width \<and> 0 \<le> y \<and> y < height" for x y
    using that by (intro resizeCells_cell [OF assms(1-3) _ _ _ _ r]) simp_all
  with r l show ?thesis by blast
qed

theorem resizeCells_overlap_witness:
  "int (length [1, 0, 1, 0, 1, 1 :: byte]) = 3 * 2 \<and> (0::int) \<le> 2 \<and> (0::int) \<le> 3
   \<and> resizeCells [1, 0, 1, 0, 1, 1] 3 2 2 3 = Inr [1, 0, 0, 1, 0, 0]
   \<and> (\<exists>next. resizeCells [1, 0, 1, 0, 1, 1] 3 2 2 3 = Inr next
         \<and> int (length next) = 2 * 3
         \<and> getCell next (1 * 2 + 1) = Some 1 \<and> getCell next (2 * 2 + 0) = Some 0)"
proof -
  have l: "int (length [1, 0, 1, 0, 1, 1 :: byte]) = 3 * 2" by simp
  have h: "(0::int) \<le> 2" "(0::int) \<le> 3" by simp_all
  have e: "resizeCells [1, 0, 1, 0, 1, 1] 3 2 2 3 = Inr [1, 0, 0, 1, 0, 0]" by code_simp
  obtain res where n: "resizeCells [1, 0, 1, 0, 1, 1] 3 2 2 3 = Inr res"
      "int (length res) = 2 * 3"
      "\<forall>x y. 0 \<le> x \<and> x < 2 \<and> 0 \<le> y \<and> y < 3 \<longrightarrow>
         getCell res (y * 2 + x) =
           Some (if x < min 3 2 \<and> y < min 2 3 then [1, 0, 1, 0, 1, 1] ! nat (y * 3 + x) else 0)"
    using resizeCells_overlap [OF l h] by blast
  from n(3) [rule_format, of 1 1] have "getCell res (1 * 2 + 1) = Some 1" by simp
  moreover from n(3) [rule_format, of 0 2] have "getCell res (2 * 2 + 0) = Some 0" by simp
  ultimately show ?thesis using l h e n(1,2) by blast
qed

section \<open>Placing a pattern\<close>

lemma length_placeOffsets [simp]: "length (placeOffsets prev w h offs) = length prev"
proof -
  have "length (foldl (\<lambda>next (dx, dy).
                  let x = cx + dx; y = cy + dy
                  in if x \<ge> 0 \<and> x < w \<and> y \<ge> 0 \<and> y < h
                     then setCell next (y * w + x) 1 else next) prev offs) = length prev" for cx cy
    by (induction offs arbitrary: prev) (simp_all add: split_def Let_def)
  then show ?thesis by (simp add: placeOffsets_def Let_def)
qed

lemma set_placeOffsets: "set (placeOffsets prev w h offs) \<subseteq> insert 1 (set prev)"
proof -
  define step :: "board \<Rightarrow> int \<times> int \<Rightarrow> board" where
    "step = (\<lambda>next (dx, dy).
                  let x = w div 2 + dx; y = h div 2 + dy
                  in if x \<ge> 0 \<and> x < w \<and> y \<ge> 0 \<and> y < h
                     then setCell next (y * w + x) 1 else next)"
  have st: "step r d = r \<or> (\<exists>i. step r d = setCell r i 1)" for r d
    by (cases d) (auto simp add: step_def Let_def)
  have "set (foldl step prev offs) \<subseteq> insert 1 (set prev)"
  proof (induction offs rule: rev_induct)
    case Nil
    then show ?case by auto
  next
    case (snoc d offs)
    have "set (step (foldl step prev offs) d) \<subseteq> insert 1 (set (foldl step prev offs))"
      using st [of "foldl step prev offs" d] set_setCell [of "foldl step prev offs" _ 1]
      by (elim disjE exE) auto
    with snoc show ?case by auto
  qed
  then show ?thesis by (simp add: placeOffsets_def Let_def step_def)
qed

lemma placeOffsets_cell:
  assumes len: "int (length prev) = w * h" and x: "0 \<le> x" "x < w" and y: "0 \<le> y" "y < h"
  shows "getCell (placeOffsets prev w h offs) (y * w + x) =
           (if (x - w div 2, y - h div 2) \<in> set offs then Some 1
            else getCell prev (y * w + x))"
proof -
  let ?step = "\<lambda>next (dx, dy).
                  let x = w div 2 + dx; y = h div 2 + dy
                  in if x \<ge> 0 \<and> x < w \<and> y \<ge> 0 \<and> y < h
                     then setCell next (y * w + x) 1 else next"
  have "getCell (foldl ?step prev offs) (y * w + x) =
           (if (x - w div 2, y - h div 2) \<in> set offs then Some 1
            else getCell prev (y * w + x))
        \<and> length (foldl ?step prev offs) = length prev"
  proof (induction offs rule: rev_induct)
    case Nil
    then show ?case by simp
  next
    case (snoc d offs)
    obtain dx dy where d: "d = (dx, dy)" by (cases d)
    let ?r = "foldl ?step prev offs"
    from snoc have lr: "length ?r = length prev" by simp
    have app: "foldl ?step prev (offs @ [d]) = ?step ?r d" by simp
    show ?case
    proof (cases "w div 2 + dx \<ge> 0 \<and> w div 2 + dx < w \<and> h div 2 + dy \<ge> 0 \<and> h div 2 + dy < h")
      case True
      then have st: "?step ?r d = setCell ?r ((h div 2 + dy) * w + (w div 2 + dx)) 1"
        by (simp add: d Let_def)
      have idx: "(h div 2 + dy) * w + (w div 2 + dx) = y * w + x \<longleftrightarrow> d = (x - w div 2, y - h div 2)"
      proof
        assume "(h div 2 + dy) * w + (w div 2 + dx) = y * w + x"
        with True x have "h div 2 + dy = y \<and> w div 2 + dx = x"
          using cell_index_inj [of "w div 2 + dx" w x "h div 2 + dy" y] by simp
        then show "d = (x - w div 2, y - h div 2)" by (auto simp: d)
      next
        assume "d = (x - w div 2, y - h div 2)"
        then show "(h div 2 + dy) * w + (w div 2 + dx) = y * w + x" by (simp add: d)
      qed
      have rng: "0 \<le> y * w + x" "y * w + x < int (length ?r)"
        using cell_index_bounds [OF x y] len lr by simp_all
      show ?thesis
        unfolding app st using snoc idx rng by (auto simp: getCell_setCell)
    next
      case False
      then have st: "?step ?r d = ?r" by (auto simp: d Let_def)
      have "d \<noteq> (x - w div 2, y - h div 2)" using False x y by (auto simp: d)
      then show ?thesis unfolding app st using snoc by simp
    qed
  qed
  then show ?thesis by (simp add: placeOffsets_def Let_def)
qed

text \<open>
  C5. When the looked-up pattern fits (\<open>width \<ge> minWidth\<close> and \<open>height \<ge> minHeight\<close>),
  \<open>applyPattern\<close> sets to 1 exactly the cells \<open>(width div 2 + dx, height div 2 + dy)\<close> on
  the board for the offsets \<open>(dx, dy)\<close> of the pattern: offsets that land off the board
  change nothing, and every other cell keeps its value. When the board is smaller than the
  pattern's minimum, the board is left as it is.
\<close>

theorem applyPattern_places:
  assumes "find (\<lambda>q. pattern_id q = pid) catalogue = Some p"
    and "int (length (cells s)) = config_width s * config_height s"
  shows "(config_width s \<ge> minWidth p \<and> config_height s \<ge> minHeight p \<longrightarrow>
            length (cells (applyPatternIn catalogue pid s)) = length (cells s)
            \<and> (\<forall>x y. 0 \<le> x \<and> x < config_width s \<and> 0 \<le> y \<and> y < config_height s \<longrightarrow>
                  getCell (cells (applyPatternIn catalogue pid s)) (y * config_width s + x) =
                    (if \<exists>(dx, dy) \<in> set (offsets p).
                          x = config_width s div 2 + dx \<and> y = config_height s div 2 + dy
                     then Some 1
                     else getCell (cells s) (y * config_width s + x))))
       \<and> (config_width s < minWidth p \<or> config_height s < minHeight p \<longrightarrow>
            cells (applyPatternIn catalogue pid s) = cells s)
       \<and> applyPattern pid s = applyPatternIn PATTERNS pid s"
proof -
  let ?w = "config_width s" and ?h = "config_height s"
  have small: "cells (applyPatternIn catalogue pid s) = cells s"
    if "?w < minWidth p \<or> ?h < minHeight p"
    using that assms(1) by (auto simp: applyPatternIn_def)
  have fits: "cells (applyPatternIn catalogue pid s) = placeOffsets (cells s) ?w ?h (offsets p)"
    if "?w \<ge> minWidth p \<and> ?h \<ge> minHeight p"
    using that assms(1) by (auto simp: applyPatternIn_def)
  have mem: "(\<exists>(dx, dy) \<in> set (offsets p). x = ?w div 2 + dx \<and> y = ?h div 2 + dy)
               \<longleftrightarrow> (x - ?w div 2, y - ?h div 2) \<in> set (offsets p)" for x y
  proof
    assume "\<exists>(dx, dy) \<in> set (offsets p). x = ?w div 2 + dx \<and> y = ?h div 2 + dy"
    then obtain dx dy where "(dx, dy) \<in> set (offsets p)" "x = ?w div 2 + dx" "y = ?h div 2 + dy"
      by auto
    then show "(x - ?w div 2, y - ?h div 2) \<in> set (offsets p)" by simp
  next
    assume "(x - ?w div 2, y - ?h div 2) \<in> set (offsets p)"
    then show "\<exists>(dx, dy) \<in> set (offsets p). x = ?w div 2 + dx \<and> y = ?h div 2 + dy"
      by (intro bexI [of _ "(x - ?w div 2, y - ?h div 2)"]) simp_all
  qed
  have cell: "getCell (placeOffsets (cells s) ?w ?h (offsets p)) (y * ?w + x) =
                (if \<exists>(dx, dy) \<in> set (offsets p). x = ?w div 2 + dx \<and> y = ?h div 2 + dy
                 then Some 1 else getCell (cells s) (y * ?w + x))"
    if "0 \<le> x \<and> x < ?w \<and> 0 \<le> y \<and> y < ?h" for x y
    unfolding mem using that by (intro placeOffsets_cell [OF assms(2)]) simp_all
  show ?thesis
    using small fits cell by (simp add: applyPattern_def)
qed

theorem applyPattern_places_witness:
  "find (\<lambda>q. pattern_id q = ''glider'') PATTERNS
     = Some (mkPattern ''glider'' ''Glider'' 8 8 [''.O.'', ''..O'', ''OOO''])
   \<and> int (length (cells demoApp)) = config_width demoApp * config_height demoApp
   \<and> offsets (mkPattern ''glider'' ''Glider'' 8 8 [''.O.'', ''..O'', ''OOO''])
       = [(0, - 1), (1, 0), (- 1, 1), (0, 1), (1, 1)]
   \<and> getCell (cells (applyPatternIn PATTERNS ''glider'' demoApp)) (4 * 10 + 5) = Some 1
   \<and> getCell (cells (applyPatternIn PATTERNS ''glider'' demoApp)) (5 * 10 + 5) = Some 0
   \<and> find (\<lambda>q. pattern_id q = ''gosper'') PATTERNS = Some (PATTERNS ! 3)
   \<and> cells (applyPatternIn PATTERNS ''gosper'' demoApp) = cells demoApp"
proof -
  let ?glider = "mkPattern ''glider'' ''Glider'' 8 8 [''.O.'', ''..O'', ''OOO'']"
  have f: "find (\<lambda>q. pattern_id q = ''glider'') PATTERNS = Some ?glider"
    by (simp add: PATTERNS_def mkPattern_def)
  have l: "int (length (cells demoApp)) = config_width demoApp * config_height demoApp"
    by (simp add: demoApp_def)
  have o: "offsets ?glider = [(0, - 1), (1, 0), (- 1, 1), (0, 1), (1, 1)]"
    by code_simp
  have dims: "config_width demoApp = 10" "config_height demoApp = 10"
    "minWidth ?glider = 8" "minHeight ?glider = 8"
    by (simp_all add: demoApp_def mkPattern_def)
  have z: "getCell (cells demoApp) i = Some 0" if "0 \<le> i" "i < 100" for i
    using that by (simp add: demoApp_def getCell_def)
  note g = applyPattern_places [OF f l, unfolded dims o]
  have c1: "getCell (cells (applyPatternIn PATTERNS ''glider'' demoApp)) (4 * 10 + 5) = Some 1"
    using g [THEN conjunct1, rule_format, THEN conjunct2, rule_format, of 5 4] by simp
  have c2: "getCell (cells (applyPatternIn PATTERNS ''glider'' demoApp)) (5 * 10 + 5) = Some 0"
    using g [THEN conjunct1, rule_format, THEN conjunct2, rule_format, of 5 5] z [of 55] by simp
  have f2: "find (\<lambda>q. pattern_id q = ''gosper'') PATTERNS = Some (PATTERNS ! 3)"
    by (simp add: PATTERNS_def mkPattern_def)
  have m2: "minWidth (PATTERNS ! 3) = 45" by (simp add: PATTERNS_def mkPattern_def)
  have c3: "cells (applyPatternIn PATTERNS ''gosper'' demoApp) = cells demoApp"
    using applyPattern_places [OF f2 l] dims(1) m2 by simp
  from f l o c1 c2 f2 c3 show ?thesis by blast
qed

section \<open>The board invariant\<close>

lemma clampSize_bounds: "10 \<le> clampSize v" "clampSize v \<le> 150"
  by (simp_all add: clampSize_def MIN_SIZE_def MAX_SIZE_def)

lemma validBoard_iff:
  "validBoard b w h \<longleftrightarrow> 0 < w \<and> 0 < h \<and> int (length b) = w * h \<and> set b \<subseteq> {0, 1}"
  by (auto simp: validBoard_def list_all_iff)

lemma validBoard_computeNext:
  "validBoard b w h \<Longrightarrow> validBoard (computeNext b w h wr) w h"
  using set_computeNext [of b w h wr] by (simp add: validBoard_iff length_computeNext)

lemma validBoard_placeOffsets:
  "validBoard b w h \<Longrightarrow> validBoard (placeOffsets b w h offs) w h"
  using set_placeOffsets [of b w h offs] by (auto simp: validBoard_iff)

lemma validBoard_setCell:
  "validBoard b w h \<Longrightarrow> v = 0 \<or> v = 1 \<Longrightarrow> validBoard (setCell b i v) w h"
  using set_setCell [of b i v] by (auto simp: validBoard_iff)

lemma validBoard_createEmptyBoard:
  assumes "0 < w" and "0 < h"
  shows "\<exists>b. createEmptyBoard w h = Inr b \<and> validBoard b w h"
proof -
  have "createEmptyBoard w h = Inr (replicate (nat (w * h)) 0)"
    using assms by (intro createEmptyBoard_nonneg) simp_all
  moreover have "validBoard (replicate (nat (w * h)) 0) w h"
    using assms by (auto simp: validBoard_iff)
  ultimately show ?thesis by blast
qed

lemma validBoard_randomBoard:
  assumes "0 < w" and "0 < h"
  shows "\<exists>b. randomBoard rnd w h dens = Inr b \<and> validBoard b w h"
proof -
  obtain b where b: "randomBoard rnd w h dens = Inr b" "int (length b) = w * h"
      "\<forall>i < length b. b ! i = (if rnd i < dens then 1 else 0)"
    using randomBoard_fill [of w h rnd dens] assms by auto
  from b(3) have "list_all (\<lambda>c. c = 0 \<or> c = 1) b"
    unfolding list_all_length by simp
  with b(1,2) assms show ?thesis by (auto simp: validBoard_def)
qed

lemma getCell_mem: "getCell b i = Some v \<Longrightarrow> v \<in> set b"
  by (auto simp: getCell_def split: if_splits)

lemma validBoard_resizeCells:
  assumes "set prev \<subseteq> {0, 1}" and "0 < w" and "0 < h"
  shows "\<exists>b. resizeCells prev ow oh w h = Inr b \<and> validBoard b w h"
proof -
  let ?v = "\<lambda>k::int \<times> int. case getCell prev (fst k * ow + snd k) of None \<Rightarrow> 0 | Some v \<Rightarrow> v"
  let ?ks = "List.product [0..min oh h - 1] [0..min ow w - 1]"
  let ?b = "foldl (\<lambda>a k. setCell a (fst k * w + snd k) (?v k)) (replicate (nat (w * h)) 0) ?ks"
  have r: "resizeCells prev ow oh w h = Inr ?b"
    using assms(2,3) by (intro resizeCells_flat) simp_all
  have "?v k \<in> {0, 1}" for k
    using assms(1) by (auto split: option.splits dest: getCell_mem)
  then have "?v ` set ?ks \<subseteq> {0, 1}" by blast
  moreover have "set ?b \<subseteq> ?v ` set ?ks \<union> set (replicate (nat (w * h)) 0)"
    by (rule set_foldl_setCell)
  moreover have "set (replicate (nat (w * h)) (0::byte)) \<subseteq> {0, 1}" by auto
  ultimately have "set ?b \<subseteq> {0, 1}" by blast
  moreover have "int (length ?b) = w * h" using assms(2,3) by simp
  ultimately have "validBoard ?b w h" using assms(2,3) by (simp add: validBoard_iff)
  with r show ?thesis by blast
qed

lemma validState_stepOnce: "validState s \<Longrightarrow> validState (stepOnce s)"
  by (simp add: validState_def stepOnce_def validBoard_computeNext)

lemma validState_tick: "validState s \<Longrightarrow> validState (tick now s)"
  by (simp add: validState_def tick_def validBoard_computeNext)

lemma validState_frame: "validState s \<Longrightarrow> validState (frame now s)"
  by (simp add: frame_def validState_tick)

lemma validState_applyPatternIn: "validState s \<Longrightarrow> validState (applyPatternIn catalogue pid s)"
  by (auto simp: validState_def applyPatternIn_def validBoard_placeOffsets split: option.splits)

lemma validState_toggleCellAt: "validState s \<Longrightarrow> validState (toggleCellAt x y fv s)"
  by (auto simp: validState_def toggleCellAt_def Let_def validBoard_setCell split: option.splits)

lemma validState_clearBoard:
  assumes "validState s"
  shows "\<exists>s'. clearBoard s = Inr s' \<and> validState s'"
proof -
  from assms have "0 < config_width s" "0 < config_height s"
    by (simp_all add: validState_def validBoard_def)
  from validBoard_createEmptyBoard [OF this] show ?thesis
    by (auto simp: clearBoard_def validState_def)
qed

lemma validState_randomizeBoard:
  assumes "validState s"
  shows "\<exists>s'. randomizeBoard rnd s = Inr s' \<and> validState s'"
proof -
  from assms have "0 < config_width s" "0 < config_height s"
    by (simp_all add: validState_def validBoard_def)
  from validBoard_randomBoard [OF this, of rnd "density s"] show ?thesis
    by (auto simp: randomizeBoard_def validState_def)
qed

lemma validState_applySize:
  assumes "validState s"
  shows "\<exists>s'. applySize s = Inr s' \<and> validState s'
           \<and> config_width s' = clampSize (draft_width s)
           \<and> config_height s' = clampSize (draft_height s)"
proof (cases "clampSize (draft_width s) = config_width s \<and> clampSize (draft_height s) = config_height s")
  case True
  with assms show ?thesis by (simp add: applySize_def)
next
  case False
  then have ne: "(clampSize (draft_width s) = config_width s
                  \<and> clampSize (draft_height s) = config_height s) = False" by simp
  from assms have "set (cells s) \<subseteq> {0, 1}" by (simp add: validState_def validBoard_iff)
  moreover have "0 < clampSize (draft_width s)" "0 < clampSize (draft_height s)"
    using clampSize_bounds(1) [of "draft_width s"] clampSize_bounds(1) [of "draft_height s"]
    by simp_all
  ultimately obtain b where
    b: "resizeCells (cells s) (config_width s) (config_height s)
          (clampSize (draft_width s)) (clampSize (draft_height s)) = Inr b"
       "validBoard b (clampSize (draft_width s)) (clampSize (draft_height s))"
    using validBoard_resizeCells by blast
  then show ?thesis
    by (simp add: applySize_def Let_def ne validState_def)
qed

text \<open>
  C3. Every operation that produces a board keeps the invariant: the array has exactly
  \<open>width * height\<close> cells of the current dimensions and every cell is 0 or 1. This holds
  for a step, a frame of the running loop, a pattern placement, a painted cell, clear,
  randomize and resize (which moves to the clamped draft dimensions). In particular
  \<open>computeNext\<close> returns an array as long as its input, for every board, and resizing
  returns an array of \<open>newWidth * newHeight\<close> cells.
\<close>

theorem board_invariant_preserved:
  assumes "validState s"
  shows "validState (stepOnce s)
       \<and> validState (frame now s)
       \<and> validState (applyPatternIn catalogue pid s)
       \<and> validState (toggleCellAt x y fv s)
       \<and> (\<exists>s'. clearBoard s = Inr s' \<and> validState s')
       \<and> (\<exists>s'. randomizeBoard rnd s = Inr s' \<and> validState s')
       \<and> (\<exists>s'. applySize s = Inr s' \<and> validState s'
              \<and> config_width s' = clampSize (draft_width s)
              \<and> config_height s' = clampSize (draft_height s))
       \<and> length (computeNext b w h wr) = length b
       \<and> (\<exists>b'. resizeCells (cells s) (config_width s) (config_height s)
                  (clampSize dw) (clampSize dh) = Inr b'
              \<and> int (length b') = clampSize dw * clampSize dh)"
proof -
  have "0 \<le> clampSize dw" "0 \<le> clampSize dh"
    using clampSize_bounds(1) [of dw] clampSize_bounds(1) [of dh] by simp_all
  then have "\<exists>b'. resizeCells (cells s) (config_width s) (config_height s)
                  (clampSize dw) (clampSize dh) = Inr b'
              \<and> int (length b') = clampSize dw * clampSize dh"
    by (rule resizeCells_length)
  then show ?thesis
    using validState_stepOnce [OF assms] validState_frame [OF assms]
      validState_applyPatternIn [OF assms] validState_toggleCellAt [OF assms]
      validState_clearBoard [OF assms] validState_randomizeBoard [OF assms]
      validState_applySize [OF assms] length_computeNext [of b w h wr]
    by blast
qed

theorem board_invariant_preserved_witness:
  "validState demoApp
   \<and> validState (stepOnce demoApp)
   \<and> validState (applyPatternIn PATTERNS ''glider'' demoApp)
   \<and> validState (toggleCellAt 3 4 None demoApp)
   \<and> (\<exists>s'. applySize (demoApp\<lparr>draft_width := 20\<rparr>) = Inr s' \<and> validState s'
          \<and> config_width s' = 20 \<and> config_height s' = 10)"
proof -
  have v: "validState demoApp"
    by (auto simp: validState_def validBoard_iff demoApp_def)
  have v2: "validState (demoApp\<lparr>draft_width := 20\<rparr>)"
    by (auto simp: validState_def validBoard_iff demoApp_def)
  have c: "clampSize 20 = 20" "clampSize 10 = 10"
    by (simp_all add: clampSize_def MIN_SIZE_def MAX_SIZE_def)
  have d: "draft_width (demoApp\<lparr>draft_width := 20\<rparr>) = 20"
    "draft_height (demoApp\<lparr>draft_width := 20\<rparr>) = 10"
    by (simp_all add: demoApp_def)
  from board_invariant_preserved [OF v2, of 0 "[]" "''x''" 0 0 None "\<lambda>_. 0" "[]" 0 0 False 0 0]
  have "\<exists>s'. applySize (demoApp\<lparr>draft_width := 20\<rparr>) = Inr s' \<and> validState s'
          \<and> config_width s' = 20 \<and> config_height s' = 10"
    unfolding d c by blast
  with v board_invariant_preserved [OF v, of 0 PATTERNS "''glider''" 3 4 None "\<lambda>_. 0" "[]" 0 0 False 0 0]
  show ?thesis by blast
qed


section \<open>Rounding to doubles\<close>

lemma roundHalfEven_of_int [simp]: "roundHalfEven (of_int m) = m"
  by (simp add: roundHalfEven_def)

lemma roundHalfEven_near: "\<bar>of_int (roundHalfEven y) - y\<bar> \<le> 1 / 2"
proof -
  have "of_int \<lfloor>y\<rfloor> \<le> y" "y < of_int \<lfloor>y\<rfloor> + 1" by linarith+
  then show ?thesis by (auto simp: roundHalfEven_def Let_def)
qed

lemma binade_eq:
  assumes "2 powr of_int e \<le> \<bar>x\<bar>" and "\<bar>x\<bar> < 2 powr of_int (e + 1)" and "- 1022 \<le> e"
  shows "binade x = e"
proof -
  have pos: "0 < \<bar>x\<bar>" using assms(1) powr_gt_zero [of 2 "of_int e"] by linarith
  have "\<lfloor>log 2 \<bar>x\<bar>\<rfloor> = e"
    using assms(1,2) pos by (subst floor_log_eq_powr_iff) simp_all
  with assms(3) show ?thesis by (simp add: binade_def)
qed

lemma toDouble_exact:
  assumes m: "2 ^ 52 \<le> \<bar>m\<bar>" "\<bar>m\<bar> < 2 ^ 53" and e: "- 1022 \<le> e" "e \<le> 1023"
    and x: "x = of_int m * 2 powr of_int (e - 52)"
  shows "toDouble x = Fin x"
proof -
  let ?q = "2 powr of_int (e - 52) :: real"
  have q: "0 < ?q" by simp
  have split: "2 powr of_int e = 2 ^ 52 * ?q" "2 powr of_int (e + 1) = 2 ^ 53 * ?q"
    by (simp_all add: powr_diff powr_add)
  have absx: "\<bar>x\<bar> = of_int \<bar>m\<bar> * ?q" by (simp add: x abs_mult)
  have lo: "2 powr of_int e \<le> \<bar>x\<bar>"
    unfolding absx split using m(1) q by (intro mult_right_mono) (simp_all add: of_int_le_iff [symmetric] del: of_int_le_iff)
  have hi: "\<bar>x\<bar> < 2 powr of_int (e + 1)"
    unfolding absx split using m(2) q by (intro mult_strict_right_mono) (simp_all add: of_int_less_iff [symmetric] del: of_int_less_iff)
  have b: "binade x = e" by (rule binade_eq [OF lo hi e(1)])
  have qx: "quantum x = ?q" by (simp add: quantum_def b)
  have d: "x / quantum x = of_int m" unfolding qx by (simp add: x)
  have r: "roundToQuantum x = x"
    unfolding roundToQuantum_def d roundHalfEven_of_int qx by (simp add: x)
  have "2 powr of_int (e + 1) \<le> (2::real) powr 1024"
    using e(2) by (intro powr_mono) simp_all
  with hi have "\<bar>x\<bar> < 2 powr 1024" by linarith
  moreover have "x \<noteq> 0" using lo powr_gt_zero [of 2 "of_int e"] by auto
  ultimately show ?thesis by (simp add: toDouble_def r)
qed

lemma toDouble_nearThird: "toDouble nearThird = Fin nearThird"
  by (rule toDouble_exact [of 5864062014805333 8])
     (simp_all add: nearThird_def powr_neg_numeral)

lemma binade_third: "binade (1000 / 3) = 8"
  by (rule binade_eq) simp_all

lemma toDouble_third: "toDouble (1000 / 3) = Fin nearThird"
proof -
  have q: "quantum (1000 / 3) = 1 / 2 ^ 44"
    by (simp add: quantum_def binade_third powr_neg_numeral)
  have "roundHalfEven (1000 / 3 / (1 / 2 ^ 44)) = 5864062014805333"
    by (simp add: roundHalfEven_def Let_def)
  then have r: "roundToQuantum (1000 / 3) = nearThird"
    by (simp add: roundToQuantum_def q nearThird_def)
  have "\<bar>nearThird\<bar> < 2 powr 10" by (simp add: nearThird_def)
  also have "(2::real) powr 10 \<le> 2 powr 1024" by (intro powr_mono) simp_all
  finally show ?thesis by (simp add: toDouble_def r)
qed

lemma nearThird_below: "nearThird < 1000 / 3"
  by (simp add: nearThird_def)

lemma toDouble_100: "toDouble 100 = Fin 100"
  by (rule toDouble_exact [of "100 * 2 ^ 46" 6]) (simp_all add: powr_neg_numeral)

lemma toDouble_120: "toDouble 120 = Fin 120"
  by (rule toDouble_exact [of "120 * 2 ^ 46" 6]) (simp_all add: powr_neg_numeral)

lemma toDouble_125: "toDouble 125 = Fin 125"
  by (rule toDouble_exact [of "125 * 2 ^ 46" 6]) (simp_all add: powr_neg_numeral)

lemma toDouble_130: "toDouble 130 = Fin 130"
  by (rule toDouble_exact [of "130 * 2 ^ 45" 7]) (simp_all add: powr_neg_numeral)

lemma quantum_pos: "0 < quantum x"
  by (simp add: quantum_def)

lemma roundToQuantum_near: "\<bar>roundToQuantum x - x\<bar> \<le> quantum x / 2"
proof -
  let ?q = "quantum x"
  have q: "0 < ?q" by (rule quantum_pos)
  have "roundToQuantum x - x = (of_int (roundHalfEven (x / ?q)) - x / ?q) * ?q"
    using q by (simp add: roundToQuantum_def algebra_simps)
  then have "\<bar>roundToQuantum x - x\<bar> = \<bar>of_int (roundHalfEven (x / ?q)) - x / ?q\<bar> * ?q"
    using q by (simp add: abs_mult)
  also have "\<dots> \<le> 1 / 2 * ?q"
    using q by (intro mult_right_mono roundHalfEven_near) simp
  finally show ?thesis by simp
qed

lemma quantum_normal:
  assumes "2 powr (- 1022) \<le> \<bar>x\<bar>"
  shows "quantum x / 2 \<le> \<bar>x\<bar> * 2 powr (- 53)"
proof -
  have pos: "0 < \<bar>x\<bar>" using assms powr_gt_zero [of 2 "- 1022"] by linarith
  let ?e = "\<lfloor>log 2 \<bar>x\<bar>\<rfloor>"
  have "log 2 (2 powr (- 1022)) \<le> log 2 \<bar>x\<bar>"
    using assms pos by (subst log_le_cancel_iff) simp_all
  then have "- 1022 \<le> log 2 \<bar>x\<bar>" by simp
  then have e: "- 1022 \<le> ?e" by (simp add: le_floor_iff)
  then have b: "binade x = ?e" by (simp add: binade_def)
  have "of_int ?e \<le> log 2 \<bar>x\<bar>" by simp
  then have lo: "2 powr of_int ?e \<le> \<bar>x\<bar>"
    using pos by (simp add: powr_le_iff)
  have "quantum x / 2 = 2 powr of_int ?e * 2 powr (- 53)"
    by (simp add: quantum_def b powr_diff powr_minus field_simps)
  also have "\<dots> \<le> \<bar>x\<bar> * 2 powr (- 53)"
    using lo by (intro mult_right_mono) simp_all
  finally show ?thesis .
qed

lemma quantum_subnormal:
  assumes "x \<noteq> 0" and "\<bar>x\<bar> < 2 powr (- 1022)"
  shows "quantum x = 2 powr (- 1074)"
proof -
  have pos: "0 < \<bar>x\<bar>" using assms(1) by simp
  have "log 2 \<bar>x\<bar> < log 2 (2 powr (- 1022))"
    using assms(2) pos by (subst log_less_cancel_iff) simp_all
  then have "log 2 \<bar>x\<bar> < - 1022" by simp
  then have "\<lfloor>log 2 \<bar>x\<bar>\<rfloor> < - 1022" by (simp add: floor_less_iff)
  then have "binade x = - 1022" by (simp add: binade_def)
  then show ?thesis by (simp add: quantum_def)
qed

lemma toDouble_Fin_normal:
  assumes "toDouble x = Fin r" and "2 powr (- 1022) \<le> \<bar>x\<bar>"
  shows "\<bar>r - x\<bar> \<le> \<bar>x\<bar> * 2 powr (- 53)"
proof -
  have "x \<noteq> 0" using assms(2) powr_gt_zero [of 2 "- 1022"] by auto
  with assms(1) have "r = roundToQuantum x"
    by (simp add: toDouble_def split: if_splits)
  with roundToQuantum_near [of x] quantum_normal [OF assms(2)] show ?thesis by simp
qed

lemma toDouble_Fin_subnormal:
  assumes "toDouble x = Fin r" and "\<bar>x\<bar> < 2 powr (- 1022)"
  shows "\<bar>r\<bar> < 1"
proof (cases "x = 0")
  case True
  with assms(1) show ?thesis by (simp add: toDouble_def)
next
  case False
  with assms(1) have r: "r = roundToQuantum x"
    by (simp add: toDouble_def split: if_splits)
  have "\<bar>r - x\<bar> \<le> 2 powr (- 1074) / 2"
    using roundToQuantum_near [of x] quantum_subnormal [OF False assms(2)] r by simp
  moreover have "(2::real) powr (- 1074) \<le> 2 powr (- 1)" by (intro powr_mono) simp_all
  moreover have "(2::real) powr (- 1022) \<le> 2 powr (- 1)" by (intro powr_mono) simp_all
  moreover have "(2::real) powr (- 1) = 1 / 2" by (simp add: powr_minus_divide)
  ultimately show ?thesis using assms(2) by linarith
qed

lemma toDouble_PosInf:
  assumes "toDouble x = PosInf"
  shows "2 powr 1023 \<le> x"
proof -
  from assms have x: "x > 0" and big: "2 powr 1024 \<le> \<bar>roundToQuantum x\<bar>"
    by (simp_all add: toDouble_def split: if_splits)
  have one: "(1::real) \<le> 2 powr 1024" using powr_mono [of 0 1024 "2::real"] by simp
  show ?thesis
  proof (cases "2 powr (- 1022) \<le> \<bar>x\<bar>")
    case True
    have "(2::real) powr (- 53) \<le> 2 powr 0" by (intro powr_mono) simp_all
    then have "\<bar>x\<bar> * 2 powr (- 53) \<le> \<bar>x\<bar> * 1"
      by (intro mult_left_mono) simp_all
    with roundToQuantum_near [of x] quantum_normal [OF True]
    have "\<bar>roundToQuantum x\<bar> \<le> 2 * x" using x by linarith
    with big have "2 powr 1024 \<le> 2 * x" by linarith
    moreover have "(2::real) powr 1024 = 2 * 2 powr 1023"
      using powr_add [of "2::real" 1 1023] by simp
    ultimately show ?thesis by linarith
  next
    case False
    then have small: "\<bar>x\<bar> < 2 powr (- 1022)" by simp
    have "x \<noteq> 0" using x by simp
    have "\<bar>roundToQuantum x - x\<bar> \<le> 2 powr (- 1074) / 2"
      using roundToQuantum_near [of x] quantum_subnormal [OF \<open>x \<noteq> 0\<close> small] by simp
    moreover have "(2::real) powr (- 1074) \<le> 2 powr (- 1)" by (intro powr_mono) simp_all
    moreover have "(2::real) powr (- 1022) \<le> 2 powr (- 1)" by (intro powr_mono) simp_all
    moreover have "(2::real) powr (- 1) = 1 / 2" by (simp add: powr_minus_divide)
    ultimately have "\<bar>roundToQuantum x\<bar> < 1" using small by linarith
    with big one show ?thesis by linarith
  qed
qed

section \<open>The animation loop\<close>

lemma toDouble_not_NaN: "toDouble x \<noteq> NaN"
  by (simp add: toDouble_def)

lemma toDouble_NegInf: "toDouble x = NegInf \<Longrightarrow> x < 0"
  by (simp add: toDouble_def split: if_splits)

text \<open>
  What the comparison of the two rounded numbers says about the exact ones, for a speed in
  the range of the configuration.
\<close>

lemma gate_real_bound:
  assumes speed: "1 \<le> speed" "speed \<le> 30"
    and gate: "jsGe (jsSub b a) (jsDiv 1000 speed)"
  shows "(1 - 2 powr (- 52)) * (1000 / speed) \<le> b - a"
proof -
  define I where "I = 1000 / speed"
  define u :: real where "u = 2 powr (- 53)"
  define x where "x = b - a"
  have I: "100 / 3 \<le> I" "I \<le> 1000"
    using speed by (simp_all add: I_def field_simps)
  have u: "0 < u" "u \<le> 1 / 2"
    using powr_mono [of "- 53" "- 1" "2::real"] by (simp_all add: u_def powr_minus_divide)
  have u2: "2 powr (- 52) = 2 * u"
    using powr_add [of "2::real" 1 "- 53"] by (simp add: u_def)
  have p10: "(1000::real) < 2 powr 1023"
  proof -
    have "(2::real) powr 10 \<le> 2 powr 1023" by (intro powr_mono) simp_all
    then show ?thesis by simp
  qed
  have small: "(2::real) powr (- 1022) \<le> 1"
    using powr_mono [of "- 1022" 0 "2::real"] by simp
  have div: "jsDiv 1000 speed = toDouble I"
    using speed by (simp add: jsDiv_def I_def)
  obtain d where d: "toDouble I = Fin d"
  proof (cases "toDouble I")
    case (Fin d)
    then show ?thesis by (rule that)
  next
    case PosInf
    from toDouble_PosInf [OF this] I(2) p10 show ?thesis by linarith
  next
    case NegInf
    from toDouble_NegInf [OF this] I(1) show ?thesis by linarith
  next
    case NaN
    then show ?thesis by (simp add: toDouble_not_NaN)
  qed
  have "\<bar>d - I\<bar> \<le> \<bar>I\<bar> * u"
    unfolding u_def using I(1) small by (intro toDouble_Fin_normal [OF d]) linarith
  then have dI: "I * (1 - u) \<le> d" using I(1) by (simp add: algebra_simps abs_le_iff)
  have "100 / 3 * (1 / 2) \<le> I * (1 - u)"
    using I(1) u by (intro mult_mono) simp_all
  with dI have d1: "1 < d" by linarith
  have goal: "I * (1 - 2 * u) \<le> x"
  proof (cases "toDouble x")
    case (Fin r)
    with gate have rd: "d \<le> r" by (simp add: jsSub_def div d x_def)
    have normal: "2 powr (- 1022) \<le> \<bar>x\<bar>"
    proof (rule ccontr)
      assume "\<not> 2 powr (- 1022) \<le> \<bar>x\<bar>"
      then have "\<bar>x\<bar> < 2 powr (- 1022)" by simp
      from toDouble_Fin_subnormal [OF Fin this] rd d1 show False by linarith
    qed
    have err: "\<bar>r - x\<bar> \<le> \<bar>x\<bar> * u"
      unfolding u_def by (rule toDouble_Fin_normal [OF Fin normal])
    have xpos: "0 < x"
    proof (rule ccontr)
      assume "\<not> 0 < x"
      then have "\<bar>x\<bar> = - x" by simp
      with err have "r \<le> x + (- x) * u" by (simp add: abs_le_iff)
      also have "\<dots> = x * (1 - u)" by (simp add: algebra_simps)
      also have "\<dots> \<le> 0" using \<open>\<not> 0 < x\<close> u by (simp add: mult_le_0_iff)
      finally show False using rd d1 by linarith
    qed
    with err have "r \<le> x * (1 + u)" by (simp add: abs_le_iff algebra_simps)
    with rd dI have A: "I * (1 - u) \<le> x * (1 + u)" by linarith
    have "(1 - 2 * u) * (1 + u) \<le> 1 - u"
    proof -
      have "(1 - 2 * u) * (1 + u) = 1 - u - 2 * (u * u)" by (simp add: algebra_simps)
      moreover have "0 \<le> u * u" by simp
      ultimately show ?thesis by linarith
    qed
    then have "I * ((1 - 2 * u) * (1 + u)) \<le> I * (1 - u)"
      using I(1) by (intro mult_left_mono) simp_all
    with A have "I * (1 - 2 * u) * (1 + u) \<le> x * (1 + u)" by (simp add: mult.assoc)
    moreover have "0 < 1 + u" using u by simp
    ultimately show ?thesis by (rule mult_right_le_imp_le)
  next
    case PosInf
    from toDouble_PosInf [OF this] p10 I(2) have "I \<le> x" by linarith
    moreover have "I * (1 - 2 * u) \<le> I * 1"
      using I(1) u by (intro mult_left_mono) simp_all
    ultimately show ?thesis by simp
  next
    case NegInf
    with gate show ?thesis by (simp add: jsSub_def div d x_def)
  next
    case NaN
    then show ?thesis by (simp add: toDouble_not_NaN)
  qed
  then show ?thesis by (simp add: u2 I_def x_def mult.commute)
qed

lemma tick_cases:
  "tick now s = s
   \<or> (tick now s =
        s\<lparr>cells := computeNext (cells s) (config_width s) (config_height s) (config_wrap s),
          generation := generation s + 1, lastFrame := now\<rparr>
      \<and> jsGe (jsSub now (lastFrame s)) (jsDiv 1000 (config_speed s)))"
  by (simp add: tick_def Let_def)

lemma frame_cases:
  "frame now s = s
   \<or> (frame now s =
        s\<lparr>cells := computeNext (cells s) (config_width s) (config_height s) (config_wrap s),
          generation := generation s + 1, lastFrame := now\<rparr>
      \<and> running s \<and> jsGe (jsSub now (lastFrame s)) (jsDiv 1000 (config_speed s)))"
  using tick_cases [of now s] by (auto simp: frame_def)

lemma frame_generation:
  "generation (frame now s) = generation s \<or> generation (frame now s) = generation s + 1"
  using frame_cases [of now s] by auto

lemma frame_speed [simp]: "config_speed (frame now s) = config_speed s"
  using frame_cases [of now s] by auto

lemma frame_unchanged:
  "generation (frame now s) = generation s \<Longrightarrow> frame now s = s"
  using frame_cases [of now s] by auto

lemma frame_advanced:
  assumes "generation (frame now s) \<noteq> generation s"
  shows "lastFrame (frame now s) = now"
    and "jsGe (jsSub now (lastFrame s)) (jsDiv 1000 (config_speed s))"
    and "generation (frame now s) = generation s + 1"
  using frame_cases [of now s] assms by auto

lemma advanceTimes_first:
  "advanceTimes s ts = t # rest \<Longrightarrow> jsGe (jsSub t (lastFrame s)) (jsDiv 1000 (config_speed s))"
proof (induction ts arbitrary: s)
  case Nil
  then show ?case by simp
next
  case (Cons now ts)
  show ?case
  proof (cases "generation (frame now s) = generation s")
    case True
    then have "frame now s = s" by (rule frame_unchanged)
    with Cons.prems True have "advanceTimes s ts = t # rest" by simp
    then show ?thesis by (rule Cons.IH)
  next
    case False
    with Cons.prems have "t = now" by simp
    with frame_advanced(2) [OF False] show ?thesis by simp
  qed
qed

lemma advanceTimes_spaced:
  "successively (\<lambda>a b. jsGe (jsSub b a) (jsDiv 1000 (config_speed s))) (advanceTimes s ts)"
proof (induction ts arbitrary: s)
  case Nil
  then show ?case by simp
next
  case (Cons now ts)
  let ?s' = "frame now s"
  let ?P = "\<lambda>a b. jsGe (jsSub b a) (jsDiv 1000 (config_speed s))"
  have IH: "successively ?P (advanceTimes ?s' ts)"
    using Cons.IH [of ?s'] by simp
  show ?case
  proof (cases "generation ?s' = generation s")
    case True
    with IH show ?thesis by simp
  next
    case False
    have "successively ?P (now # advanceTimes ?s' ts)"
    proof (cases "advanceTimes ?s' ts")
      case Nil
      then show ?thesis by simp
    next
      case (Cons t rest)
      from advanceTimes_first [OF Cons] frame_advanced(1) [OF False]
      have "?P now t" by simp
      with IH Cons show ?thesis by simp
    qed
    with False show ?thesis by simp
  qed
qed

lemma runFrames_generation:
  "generation (runFrames s ts) = generation s + length (advanceTimes s ts)"
proof (induction ts arbitrary: s)
  case Nil
  then show ?case by (simp add: runFrames_def)
next
  case (Cons now ts)
  have "generation (runFrames s (now # ts)) = generation (runFrames (frame now s) ts)"
    by (simp add: runFrames_def)
  also have "\<dots> = generation (frame now s) + length (advanceTimes (frame now s) ts)"
    by (rule Cons.IH)
  finally show ?case
    using frame_generation [of now s] by auto
qed

text \<open>
  C9, as the code has it. In a run of frame callbacks, any two consecutive callbacks that
  compute a generation are at times whose difference, computed in doubles, is at least the
  double quotient \<open>1000 / speed\<close>; for a speed in \<open>[1, 30]\<close> their exact distance is at least
  \<open>(1 - 2^(-52)) * 1000 / speed\<close> milliseconds. One callback computes at most one generation:
  the counter grows by the number of advancing callbacks, one each.
\<close>

theorem frame_spacing_in_doubles:
  "successively (\<lambda>a b. jsGe (jsSub b a) (jsDiv 1000 (config_speed s))) (advanceTimes s ts)
   \<and> (1 \<le> config_speed s \<and> config_speed s \<le> 30 \<longrightarrow>
        successively (\<lambda>a b. (1 - 2 powr (- 52)) * (1000 / config_speed s) \<le> b - a)
          (advanceTimes s ts))
   \<and> (generation (frame now s) = generation s \<or> generation (frame now s) = generation s + 1)
   \<and> generation (runFrames s ts) = generation s + length (advanceTimes s ts)
   \<and> length (advanceTimes s ts) \<le> length ts"
proof -
  have len: "length (advanceTimes s ts) \<le> length ts"
    by (induction ts arbitrary: s) (auto intro: le_SucI)
  have spaced: "successively (\<lambda>a b. jsGe (jsSub b a) (jsDiv 1000 (config_speed s)))
                  (advanceTimes s ts)"
    by (rule advanceTimes_spaced)
  have exact: "successively (\<lambda>a b. (1 - 2 powr (- 52)) * (1000 / config_speed s) \<le> b - a)
                 (advanceTimes s ts)"
    if "1 \<le> config_speed s \<and> config_speed s \<le> 30"
    using spaced
  proof (rule successively_mono)
    fix a b
    assume "jsGe (jsSub b a) (jsDiv 1000 (config_speed s))"
    with that show "(1 - 2 powr (- 52)) * (1000 / config_speed s) \<le> b - a"
      by (intro gate_real_bound) simp_all
  qed
  from spaced exact frame_generation [of now s] runFrames_generation [of s ts] len
  show ?thesis by blast
qed

theorem frame_spacing_in_doubles_witness:
  "advanceTimes (demoApp\<lparr>running := True\<rparr>) [100, 120, 130, 250, 260, 380] = [130, 260]
   \<and> config_speed (demoApp\<lparr>running := True\<rparr>) = 8
   \<and> jsDiv 1000 8 = Fin 125
   \<and> jsGe (jsSub 260 130) (jsDiv 1000 8)
   \<and> (1 - 2 powr (- 52)) * (1000 / 8) \<le> 260 - (130::real)
   \<and> generation (runFrames (demoApp\<lparr>running := True\<rparr>) [100, 120, 130, 250, 260, 380]) = 9"
proof -
  let ?s = "demoApp\<lparr>running := True\<rparr>"
  have i: "jsDiv 1000 8 = Fin 125" by (simp add: jsDiv_def toDouble_125)
  have sub: "jsSub 100 0 = Fin 100" "jsSub 120 0 = Fin 120" "jsSub 130 0 = Fin 130"
    "jsSub 250 130 = Fin 120" "jsSub 260 130 = Fin 130" "jsSub 380 260 = Fin 120"
    by (simp_all add: jsSub_def toDouble_100 toDouble_120 toDouble_130)
  have a: "advanceTimes ?s [100, 120, 130, 250, 260, 380] = [130, 260]"
    by (simp add: demoApp_def frame_def tick_def Let_def i sub)
  have sp: "config_speed ?s = 8" and g: "generation ?s = 7" by (simp_all add: demoApp_def)
  note f = frame_spacing_in_doubles [of ?s "[100, 120, 130, 250, 260, 380]" 0, unfolded a sp]
  from f have "jsGe (jsSub 260 130) (jsDiv 1000 8)" by simp
  moreover from f have "(1 - 2 powr (- 52)) * (1000 / 8) \<le> 260 - (130::real)" by simp
  moreover from f g
  have "generation (runFrames ?s [100, 120, 130, 250, 260, 380]) = 9" by simp
  ultimately show ?thesis using a sp i by blast
qed

text \<open>
  Against C9 as stated: at speed 3 the double quotient \<open>1000 / 3\<close> is \<open>nearThird\<close>, just below
  the exact \<open>1000 / 3\<close>. Callbacks at \<open>nearThird\<close> and at twice that both compute a generation,
  less than \<open>1000 / 3\<close> milliseconds apart.
\<close>

theorem frame_spacing_below_interval:
  "config_speed thirdsApp = 3
   \<and> advanceTimes thirdsApp [nearThird, 2 * nearThird] = [nearThird, 2 * nearThird]
   \<and> 2 * nearThird - nearThird < 1000 / config_speed thirdsApp"
proof -
  have i: "jsDiv 1000 3 = Fin nearThird" by (simp add: jsDiv_def toDouble_third)
  have sub: "jsSub nearThird 0 = Fin nearThird" "jsSub (2 * nearThird) nearThird = Fin nearThird"
    by (simp_all add: jsSub_def toDouble_nearThird)
  have a: "advanceTimes thirdsApp [nearThird, 2 * nearThird] = [nearThird, 2 * nearThird]"
    by (simp add: thirdsApp_def demoApp_def frame_def tick_def Let_def i sub)
  have sp: "config_speed thirdsApp = 3" by (simp add: thirdsApp_def demoApp_def)
  from a sp nearThird_below show ?thesis by simp
qed

section \<open>The generation counter\<close>

text \<open>
  C7, as the code has it. The generation counter is a natural number. A manual step adds
  exactly one, and a frame callback either leaves the state alone or computes one
  generation and adds exactly one. Clear and randomize set it to 0. A pattern placement
  sets it to 0 when the pattern is known and fits, and otherwise leaves it; a resize sets
  it to 0 when the clamped draft size differs from the current size, and otherwise leaves
  the whole state as it is.
\<close>

theorem generation_counter:
  assumes "validState s"
  shows "generation (stepOnce s) = generation s + 1
       \<and> cells (stepOnce s) = computeNext (cells s) (config_width s) (config_height s) (config_wrap s)
       \<and> (frame now s = s
            \<or> (cells (frame now s)
                  = computeNext (cells s) (config_width s) (config_height s) (config_wrap s)
                \<and> generation (frame now s) = generation s + 1))
       \<and> (\<exists>s'. clearBoard s = Inr s' \<and> generation s' = 0)
       \<and> (\<exists>s'. randomizeBoard rnd s = Inr s' \<and> generation s' = 0)
       \<and> generation (applyPatternIn catalogue pid s) =
            (case find (\<lambda>q. pattern_id q = pid) catalogue of
               None \<Rightarrow> generation s
             | Some p \<Rightarrow> if config_width s < minWidth p \<or> config_height s < minHeight p
                         then generation s else 0)
       \<and> (\<exists>s'. applySize s = Inr s'
              \<and> (if clampSize (draft_width s) = config_width s
                     \<and> clampSize (draft_height s) = config_height s
                  then s' = s else generation s' = 0))"
proof -
  have step: "generation (stepOnce s) = generation s + 1"
    "cells (stepOnce s) = computeNext (cells s) (config_width s) (config_height s) (config_wrap s)"
    by (simp_all add: stepOnce_def)
  have fr: "frame now s = s
            \<or> (cells (frame now s)
                  = computeNext (cells s) (config_width s) (config_height s) (config_wrap s)
                \<and> generation (frame now s) = generation s + 1)"
    using frame_cases [of now s] by auto
  from assms have pos: "0 < config_width s" "0 < config_height s"
    by (simp_all add: validState_def validBoard_def)
  have clr: "\<exists>s'. clearBoard s = Inr s' \<and> generation s' = 0"
    using validBoard_createEmptyBoard [OF pos] by (auto simp: clearBoard_def)
  have rnd: "\<exists>s'. randomizeBoard rnd s = Inr s' \<and> generation s' = 0"
    using validBoard_randomBoard [OF pos, of rnd "density s"] by (auto simp: randomizeBoard_def)
  have pat: "generation (applyPatternIn catalogue pid s) =
            (case find (\<lambda>q. pattern_id q = pid) catalogue of
               None \<Rightarrow> generation s
             | Some p \<Rightarrow> if config_width s < minWidth p \<or> config_height s < minHeight p
                         then generation s else 0)"
    by (simp add: applyPatternIn_def split: option.splits)
  have size: "\<exists>s'. applySize s = Inr s'
              \<and> (if clampSize (draft_width s) = config_width s
                     \<and> clampSize (draft_height s) = config_height s
                  then s' = s else generation s' = 0)"
  proof (cases "clampSize (draft_width s) = config_width s
                  \<and> clampSize (draft_height s) = config_height s")
    case True
    then show ?thesis by (simp add: applySize_def)
  next
    case False
    then have ne: "(clampSize (draft_width s) = config_width s
                  \<and> clampSize (draft_height s) = config_height s) = False" by simp
    have "0 \<le> clampSize (draft_width s)" "0 \<le> clampSize (draft_height s)"
      using clampSize_bounds(1) [of "draft_width s"] clampSize_bounds(1) [of "draft_height s"]
      by simp_all
    from resizeCells_length [OF this, of "cells s" "config_width s" "config_height s"]
    obtain b where "resizeCells (cells s) (config_width s) (config_height s)
          (clampSize (draft_width s)) (clampSize (draft_height s)) = Inr b" by blast
    then show ?thesis by (simp add: applySize_def Let_def ne)
  qed
  from step fr clr rnd pat size show ?thesis by blast
qed

theorem generation_counter_witness:
  "validState demoApp \<and> generation demoApp = 7
   \<and> generation (stepOnce demoApp) = 8
   \<and> generation (applyPatternIn PATTERNS ''glider'' demoApp) = 0
   \<and> generation (applyPatternIn PATTERNS ''gosper'' demoApp) = 7
   \<and> (\<exists>s'. clearBoard demoApp = Inr s' \<and> generation s' = 0)
   \<and> (\<exists>s'. applySize (demoApp\<lparr>draft_width := 20\<rparr>) = Inr s' \<and> generation s' = 0)"
proof -
  have v: "validState demoApp"
    by (auto simp: validState_def validBoard_iff demoApp_def)
  have v2: "validState (demoApp\<lparr>draft_width := 20\<rparr>)"
    by (auto simp: validState_def validBoard_iff demoApp_def)
  have g: "generation demoApp = 7" by (simp add: demoApp_def)
  have fg: "find (\<lambda>q. pattern_id q = ''glider'') PATTERNS = Some (PATTERNS ! 0)"
    "find (\<lambda>q. pattern_id q = ''gosper'') PATTERNS = Some (PATTERNS ! 3)"
    by (simp_all add: PATTERNS_def mkPattern_def)
  have m: "minWidth (PATTERNS ! 0) = 8" "minHeight (PATTERNS ! 0) = 8"
    "minWidth (PATTERNS ! 3) = 45" "config_width demoApp = 10" "config_height demoApp = 10"
    by (simp_all add: PATTERNS_def mkPattern_def demoApp_def)
  have c: "clampSize (draft_width (demoApp\<lparr>draft_width := 20\<rparr>)) = 20"
    "config_width (demoApp\<lparr>draft_width := 20\<rparr>) = 10"
    by (simp_all add: clampSize_def MIN_SIZE_def MAX_SIZE_def demoApp_def)
  note a = generation_counter [OF v, of 0 "\<lambda>_. 0" PATTERNS "''glider''"]
  note b = generation_counter [OF v, of 0 "\<lambda>_. 0" PATTERNS "''gosper''"]
  note d = generation_counter [OF v2, of 0 "\<lambda>_. 0" PATTERNS "''glider''"]
  have 1: "generation (stepOnce demoApp) = 8" using a g by simp
  have 2: "generation (applyPatternIn PATTERNS ''glider'' demoApp) = 0"
    using a fg(1) m by simp
  have 3: "generation (applyPatternIn PATTERNS ''gosper'' demoApp) = 7"
    using b fg(2) m g by simp
  have 4: "\<exists>s'. clearBoard demoApp = Inr s' \<and> generation s' = 0" using a by blast
  have 5: "\<exists>s'. applySize (demoApp\<lparr>draft_width := 20\<rparr>) = Inr s' \<and> generation s' = 0"
    using d c by auto
  from v g 1 2 3 4 5 show ?thesis by blast
qed

text \<open>
  Against C7 as stated: the resize handler with a draft size equal to the current size
  returns before any update, and the counter keeps its value, here 7.
\<close>

theorem generation_not_reset_by_same_size_resize:
  "clampSize (draft_width demoApp) = config_width demoApp
   \<and> clampSize (draft_height demoApp) = config_height demoApp
   \<and> applySize demoApp = Inr demoApp
   \<and> generation demoApp = 7"
  by (simp add: applySize_def demoApp_def clampSize_def MIN_SIZE_def MAX_SIZE_def)

section \<open>The persisted state\<close>

lemma clampSizeJS_number:
  "n \<noteq> NaN \<Longrightarrow> \<exists>w. clampSizeJS n = Some w \<and> 10 \<le> w \<and> w \<le> 150"
  using clampSize_bounds
  by (cases n) (simp_all add: clampSizeJS_def MIN_SIZE_def MAX_SIZE_def)

lemma clampSizeJS_Some:
  "clampSizeJS n = Some w \<Longrightarrow> 10 \<le> w \<and> w \<le> 150"
  using clampSize_bounds
  by (cases n) (auto simp add: clampSizeJS_def MIN_SIZE_def MAX_SIZE_def)

lemma clampSize_default:
  "clampSize (real_of_int DEFAULT_WIDTH) = DEFAULT_WIDTH"
  "clampSize (real_of_int DEFAULT_HEIGHT) = DEFAULT_HEIGHT"
  by (simp_all add: clampSize_def DEFAULT_WIDTH_def DEFAULT_HEIGHT_def MIN_SIZE_def MAX_SIZE_def)

lemma saved_size_field:
  "clampSizeJS (toNumber coerce (nullish v (real_of_int d))) =
     (if v = JUndefined \<or> v = JNull then Some (clampSize (real_of_int d))
      else clampSizeJS (toNumber coerce v))"
  by (simp add: nullish_def toNumber_def clampSizeJS_def)

lemma clampSpeed_number:
  "n \<noteq> NaN \<Longrightarrow> \<exists>v. clampSpeed n = Fin v \<and> 1 \<le> v \<and> v \<le> 30"
  by (cases n) (simp_all add: clampSpeed_def)

text \<open>
  C6, as the code has it. No item, an exception or a parsed \<open>null\<close> give no record, and
  then the configuration is 42 by 28 at speed 10 with wrap on and the theme \<open>neon\<close>, on an
  empty board of the default size. From a parsed record: width and height are the defaults
  42 and 28 when missing or \<open>null\<close>, and a number \<open>v\<close> is rounded and clamped to
  \<open>max 10 (min 150 \<lfloor>v + 1/2\<rfloor>)\<close> (an infinity to the nearer bound); the speed is
  \<open>min 30 (max 1 v)\<close> for a number \<open>v\<close> and is 8 otherwise; wrap is on when missing; a theme
  id is kept, and a theme that is no string, or a string that is neither a theme id nor a
  property name of \<open>Object.prototype\<close>, becomes \<open>neon\<close>; cells that are missing, no string
  or the empty string give an empty board of the record's own width and height.
\<close>

theorem loadSavedState_fields:
  "loadSavedState coerce NoItem = None
   \<and> loadSavedState coerce Throws = None
   \<and> loadSavedState coerce ParsedNull = None
   \<and> initialCells None = Inr (replicate (nat (DEFAULT_WIDTH * DEFAULT_HEIGHT)) 0)
   \<and> initialConfig None =
        \<lparr>init_width = Some 42, init_height = Some 28, init_speed = Fin 10,
         init_wrap = True, init_theme = ''neon''\<rparr>
   \<and> (\<exists>sv. loadSavedState coerce (Parsed p) = Some sv
        \<and> (parsed_width p = JUndefined \<or> parsed_width p = JNull \<longrightarrow> saved_width sv = Some 42)
        \<and> (parsed_height p = JUndefined \<or> parsed_height p = JNull \<longrightarrow> saved_height sv = Some 28)
        \<and> (\<forall>n. parsed_width p = JNumber n \<and> n \<noteq> NaN \<longrightarrow>
              (\<exists>w. saved_width sv = Some w \<and> 10 \<le> w \<and> w \<le> 150))
        \<and> (\<forall>n. parsed_height p = JNumber n \<and> n \<noteq> NaN \<longrightarrow>
              (\<exists>h. saved_height sv = Some h \<and> 10 \<le> h \<and> h \<le> 150))
        \<and> (\<forall>v. parsed_width p = JNumber (Fin v) \<longrightarrow> saved_width sv = Some (clampSize v))
        \<and> (\<forall>v. parsed_height p = JNumber (Fin v) \<longrightarrow> saved_height sv = Some (clampSize v))
        \<and> (\<forall>n. parsed_speed p = JNumber n \<and> n \<noteq> NaN \<longrightarrow>
              (\<exists>v. saved_speed sv = Fin v \<and> 1 \<le> v \<and> v \<le> 30))
        \<and> ((\<forall>n. parsed_speed p \<noteq> JNumber n) \<longrightarrow> saved_speed sv = Fin 8)
        \<and> (parsed_wrap p = JUndefined \<longrightarrow> saved_wrap sv)
        \<and> (\<forall>b. parsed_wrap p = JBool b \<longrightarrow> saved_wrap sv = b)
        \<and> (\<forall>t. parsed_theme p = JString t \<and> t \<in> set themeIds \<longrightarrow> saved_theme sv = t)
        \<and> ((\<forall>t. parsed_theme p = JString t \<longrightarrow> t \<notin> set themeIds \<and> t \<notin> set objectPrototypeKeys)
              \<longrightarrow> saved_theme sv = ''neon'')
        \<and> (\<forall>c. parsed_cells p = JString c \<longrightarrow> saved_cells sv = Some c)
        \<and> (\<forall>w h. saved_width sv = Some w \<and> saved_height sv = Some h
                   \<and> (\<forall>c. parsed_cells p = JString c \<longrightarrow> c = []) \<longrightarrow>
              initialCells (Some sv) = createEmptyBoard w h
              \<and> createEmptyBoard w h = Inr (replicate (nat (w * h)) 0))
        \<and> (\<forall>v. parsed_width p = JNumber (Fin v) \<longrightarrow>
              saved_width sv = Some (max 10 (min 150 \<lfloor>v + 1 / 2\<rfloor>)))
        \<and> (\<forall>v. parsed_height p = JNumber (Fin v) \<longrightarrow>
              saved_height sv = Some (max 10 (min 150 \<lfloor>v + 1 / 2\<rfloor>)))
        \<and> (parsed_width p = JNumber PosInf \<longrightarrow> saved_width sv = Some 150)
        \<and> (parsed_width p = JNumber NegInf \<longrightarrow> saved_width sv = Some 10)
        \<and> (parsed_height p = JNumber PosInf \<longrightarrow> saved_height sv = Some 150)
        \<and> (parsed_height p = JNumber NegInf \<longrightarrow> saved_height sv = Some 10)
        \<and> (\<forall>v. parsed_speed p = JNumber (Fin v) \<longrightarrow> saved_speed sv = Fin (min 30 (max 1 v)))
        \<and> (parsed_speed p = JNumber PosInf \<longrightarrow> saved_speed sv = Fin 30)
        \<and> (parsed_speed p = JNumber NegInf \<longrightarrow> saved_speed sv = Fin 1))"
proof -
  define sv where "sv = the (loadSavedState coerce (Parsed p))"
  have ld: "loadSavedState coerce (Parsed p) = Some sv"
    by (simp add: sv_def loadSavedState_def Let_def)
  have w: "saved_width sv = (if parsed_width p = JUndefined \<or> parsed_width p = JNull
                              then Some DEFAULT_WIDTH
                              else clampSizeJS (toNumber coerce (parsed_width p)))"
    and h: "saved_height sv = (if parsed_height p = JUndefined \<or> parsed_height p = JNull
                               then Some DEFAULT_HEIGHT
                               else clampSizeJS (toNumber coerce (parsed_height p)))"
    by (simp_all add: sv_def loadSavedState_def Let_def saved_size_field clampSize_default)
  have sp: "saved_speed sv = (case parsed_speed p of JNumber n \<Rightarrow> clampSpeed n | _ \<Rightarrow> Fin 8)"
    and wr: "saved_wrap sv = (if parsed_wrap p \<noteq> JUndefined then toBoolean (parsed_wrap p) else True)"
    and th: "saved_theme sv = (case parsed_theme p of
                                JString t \<Rightarrow> (if isThemeId t then t else ''neon'')
                              | _ \<Rightarrow> ''neon'')"
    and ce: "saved_cells sv = (case parsed_cells p of JString c \<Rightarrow> Some c | _ \<Rightarrow> None)"
    by (simp_all add: sv_def loadSavedState_def Let_def)
  have 1: "parsed_width p = JUndefined \<or> parsed_width p = JNull \<longrightarrow> saved_width sv = Some 42"
    and 2: "parsed_height p = JUndefined \<or> parsed_height p = JNull \<longrightarrow> saved_height sv = Some 28"
    by (simp_all add: w h DEFAULT_WIDTH_def DEFAULT_HEIGHT_def)
  have 3: "\<forall>n. parsed_width p = JNumber n \<and> n \<noteq> NaN \<longrightarrow>
              (\<exists>w. saved_width sv = Some w \<and> 10 \<le> w \<and> w \<le> 150)"
    and 4: "\<forall>n. parsed_height p = JNumber n \<and> n \<noteq> NaN \<longrightarrow>
              (\<exists>h. saved_height sv = Some h \<and> 10 \<le> h \<and> h \<le> 150)"
    using clampSizeJS_number by (auto simp: w h toNumber_def)
  have 5: "\<forall>v. parsed_width p = JNumber (Fin v) \<longrightarrow> saved_width sv = Some (clampSize v)"
    and 6: "\<forall>v. parsed_height p = JNumber (Fin v) \<longrightarrow> saved_height sv = Some (clampSize v)"
    by (simp_all add: w h toNumber_def clampSizeJS_def)
  have 7: "\<forall>n. parsed_speed p = JNumber n \<and> n \<noteq> NaN \<longrightarrow>
              (\<exists>v. saved_speed sv = Fin v \<and> 1 \<le> v \<and> v \<le> 30)"
    using clampSpeed_number by (auto simp: sp)
  have 8: "(\<forall>n. parsed_speed p \<noteq> JNumber n) \<longrightarrow> saved_speed sv = Fin 8"
    by (cases "parsed_speed p") (simp_all add: sp)
  have 9: "parsed_wrap p = JUndefined \<longrightarrow> saved_wrap sv"
    and 10: "\<forall>b. parsed_wrap p = JBool b \<longrightarrow> saved_wrap sv = b"
    by (simp_all add: wr toBoolean_def)
  have 11: "\<forall>t. parsed_theme p = JString t \<and> t \<in> set themeIds \<longrightarrow> saved_theme sv = t"
    by (simp add: th isThemeId_def)
  have 12: "(\<forall>t. parsed_theme p = JString t \<longrightarrow> t \<notin> set themeIds \<and> t \<notin> set objectPrototypeKeys)
              \<longrightarrow> saved_theme sv = ''neon''"
    by (cases "parsed_theme p") (simp_all add: th isThemeId_def)
  have 13: "\<forall>c. parsed_cells p = JString c \<longrightarrow> saved_cells sv = Some c"
    by (simp add: ce)
  have 14: "\<forall>w h. saved_width sv = Some w \<and> saved_height sv = Some h
                   \<and> (\<forall>c. parsed_cells p = JString c \<longrightarrow> c = []) \<longrightarrow>
              initialCells (Some sv) = createEmptyBoard w h
              \<and> createEmptyBoard w h = Inr (replicate (nat (w * h)) 0)"
  proof (intro allI impI)
    fix w' h'
    assume a: "saved_width sv = Some w' \<and> saved_height sv = Some h'
                   \<and> (\<forall>c. parsed_cells p = JString c \<longrightarrow> c = [])"
    then have c: "saved_cells sv = None \<or> saved_cells sv = Some []"
      by (cases "parsed_cells p") (simp_all add: ce)
    have "10 \<le> w'"
      using a w clampSizeJS_Some [of "toNumber coerce (parsed_width p)" w']
      by (auto simp: DEFAULT_WIDTH_def split: if_splits)
    moreover have "10 \<le> h'"
      using a h clampSizeJS_Some [of "toNumber coerce (parsed_height p)" h']
      by (auto simp: DEFAULT_HEIGHT_def split: if_splits)
    ultimately have "createEmptyBoard w' h' = Inr (replicate (nat (w' * h')) 0)"
      by (intro createEmptyBoard_nonneg) simp_all
    moreover have "initialCells (Some sv) = createEmptyBoard w' h'"
      using a c by (auto simp: initialCells_def)
    ultimately show "initialCells (Some sv) = createEmptyBoard w' h'
              \<and> createEmptyBoard w' h' = Inr (replicate (nat (w' * h')) 0)" by simp
  qed
  have 15: "\<forall>v. parsed_width p = JNumber (Fin v) \<longrightarrow>
              saved_width sv = Some (max 10 (min 150 \<lfloor>v + 1 / 2\<rfloor>))"
    and 16: "\<forall>v. parsed_height p = JNumber (Fin v) \<longrightarrow>
              saved_height sv = Some (max 10 (min 150 \<lfloor>v + 1 / 2\<rfloor>))"
    by (simp_all add: w h toNumber_def clampSizeJS_def clampSize_def MIN_SIZE_def MAX_SIZE_def)
  have 17: "parsed_width p = JNumber PosInf \<longrightarrow> saved_width sv = Some 150"
    and 18: "parsed_width p = JNumber NegInf \<longrightarrow> saved_width sv = Some 10"
    and 19: "parsed_height p = JNumber PosInf \<longrightarrow> saved_height sv = Some 150"
    and 20: "parsed_height p = JNumber NegInf \<longrightarrow> saved_height sv = Some 10"
    by (simp_all add: w h toNumber_def clampSizeJS_def MIN_SIZE_def MAX_SIZE_def)
  have 21: "\<forall>v. parsed_speed p = JNumber (Fin v) \<longrightarrow> saved_speed sv = Fin (min 30 (max 1 v))"
    and 22: "parsed_speed p = JNumber PosInf \<longrightarrow> saved_speed sv = Fin 30"
    and 23: "parsed_speed p = JNumber NegInf \<longrightarrow> saved_speed sv = Fin 1"
    by (simp_all add: sp clampSpeed_def)
  have 0: "loadSavedState coerce NoItem = None" "loadSavedState coerce Throws = None"
    "loadSavedState coerce ParsedNull = None"
    by (simp_all add: loadSavedState_def)
  have i0: "initialCells None = Inr (replicate (nat (DEFAULT_WIDTH * DEFAULT_HEIGHT)) 0)"
    by (simp add: initialCells_def createEmptyBoard_def newUint8Array_def
        DEFAULT_WIDTH_def DEFAULT_HEIGHT_def)
  have c0: "initialConfig None =
        \<lparr>init_width = Some 42, init_height = Some 28, init_speed = Fin 10,
         init_wrap = True, init_theme = ''neon''\<rparr>"
    by (simp add: initialConfig_def DEFAULT_WIDTH_def DEFAULT_HEIGHT_def)
  from ld 1 2 3 4 5 6 7 8 9 10 11 12 13 14 15 16 17 18 19 20 21 22 23
  have "\<exists>sv. loadSavedState coerce (Parsed p) = Some sv
        \<and> (parsed_width p = JUndefined \<or> parsed_width p = JNull \<longrightarrow> saved_width sv = Some 42)
        \<and> (parsed_height p = JUndefined \<or> parsed_height p = JNull \<longrightarrow> saved_height sv = Some 28)
        \<and> (\<forall>n. parsed_width p = JNumber n \<and> n \<noteq> NaN \<longrightarrow>
              (\<exists>w. saved_width sv = Some w \<and> 10 \<le> w \<and> w \<le> 150))
        \<and> (\<forall>n. parsed_height p = JNumber n \<and> n \<noteq> NaN \<longrightarrow>
              (\<exists>h. saved_height sv = Some h \<and> 10 \<le> h \<and> h \<le> 150))
        \<and> (\<forall>v. parsed_width p = JNumber (Fin v) \<longrightarrow> saved_width sv = Some (clampSize v))
        \<and> (\<forall>v. parsed_height p = JNumber (Fin v) \<longrightarrow> saved_height sv = Some (clampSize v))
        \<and> (\<forall>n. parsed_speed p = JNumber n \<and> n \<noteq> NaN \<longrightarrow>
              (\<exists>v. saved_speed sv = Fin v \<and> 1 \<le> v \<and> v \<le> 30))
        \<and> ((\<forall>n. parsed_speed p \<noteq> JNumber n) \<longrightarrow> saved_speed sv = Fin 8)
        \<and> (parsed_wrap p = JUndefined \<longrightarrow> saved_wrap sv)
        \<and> (\<forall>b. parsed_wrap p = JBool b \<longrightarrow> saved_wrap sv = b)
        \<and> (\<forall>t. parsed_theme p = JString t \<and> t \<in> set themeIds \<longrightarrow> saved_theme sv = t)
        \<and> ((\<forall>t. parsed_theme p = JString t \<longrightarrow> t \<notin> set themeIds \<and> t \<notin> set objectPrototypeKeys)
              \<longrightarrow> saved_theme sv = ''neon'')
        \<and> (\<forall>c. parsed_cells p = JString c \<longrightarrow> saved_cells sv = Some c)
        \<and> (\<forall>w h. saved_width sv = Some w \<and> saved_height sv = Some h
                   \<and> (\<forall>c. parsed_cells p = JString c \<longrightarrow> c = []) \<longrightarrow>
              initialCells (Some sv) = createEmptyBoard w h
              \<and> createEmptyBoard w h = Inr (replicate (nat (w * h)) 0))
        \<and> (\<forall>v. parsed_width p = JNumber (Fin v) \<longrightarrow>
              saved_width sv = Some (max 10 (min 150 \<lfloor>v + 1 / 2\<rfloor>)))
        \<and> (\<forall>v. parsed_height p = JNumber (Fin v) \<longrightarrow>
              saved_height sv = Some (max 10 (min 150 \<lfloor>v + 1 / 2\<rfloor>)))
        \<and> (parsed_width p = JNumber PosInf \<longrightarrow> saved_width sv = Some 150)
        \<and> (parsed_width p = JNumber NegInf \<longrightarrow> saved_width sv = Some 10)
        \<and> (parsed_height p = JNumber PosInf \<longrightarrow> saved_height sv = Some 150)
        \<and> (parsed_height p = JNumber NegInf \<longrightarrow> saved_height sv = Some 10)
        \<and> (\<forall>v. parsed_speed p = JNumber (Fin v) \<longrightarrow> saved_speed sv = Fin (min 30 (max 1 v)))
        \<and> (parsed_speed p = JNumber PosInf \<longrightarrow> saved_speed sv = Fin 30)
        \<and> (parsed_speed p = JNumber NegInf \<longrightarrow> saved_speed sv = Fin 1)"
    by (intro exI [of _ sv] conjI)
  with 0 i0 c0 show ?thesis by (intro conjI)
qed

theorem loadSavedState_fields_witness:
  "(\<exists>sv. loadSavedState coerceNaN (Parsed sizeOnlyRecord) = Some sv
        \<and> saved_width sv = Some 50 \<and> saved_height sv = Some 20
        \<and> saved_speed sv = Fin 8 \<and> saved_wrap sv \<and> saved_theme sv = ''neon''
        \<and> initialCells (Some sv) = Inr (replicate 1000 0))
   \<and> (\<exists>sv. loadSavedState coerceNaN (Parsed fullRecord) = Some sv
        \<and> saved_width sv = Some 150 \<and> saved_height sv = Some 21
        \<and> saved_speed sv = Fin 30 \<and> \<not> saved_wrap sv \<and> saved_theme sv = ''dark''
        \<and> saved_cells sv = Some ''0110'')"
proof -
  let ?fields = "\<lambda>p sv.
      loadSavedState coerceNaN (Parsed p) = Some sv
      \<and> (parsed_width p = JUndefined \<or> parsed_width p = JNull \<longrightarrow> saved_width sv = Some 42)
      \<and> (parsed_height p = JUndefined \<or> parsed_height p = JNull \<longrightarrow> saved_height sv = Some 28)
      \<and> (\<forall>n. parsed_width p = JNumber n \<and> n \<noteq> NaN \<longrightarrow>
      (\<exists>w. saved_width sv = Some w \<and> 10 \<le> w \<and> w \<le> 150))
      \<and> (\<forall>n. parsed_height p = JNumber n \<and> n \<noteq> NaN \<longrightarrow>
      (\<exists>h. saved_height sv = Some h \<and> 10 \<le> h \<and> h \<le> 150))
      \<and> (\<forall>v. parsed_width p = JNumber (Fin v) \<longrightarrow> saved_width sv = Some (clampSize v))
      \<and> (\<forall>v. parsed_height p = JNumber (Fin v) \<longrightarrow> saved_height sv = Some (clampSize v))
      \<and> (\<forall>n. parsed_speed p = JNumber n \<and> n \<noteq> NaN \<longrightarrow>
      (\<exists>v. saved_speed sv = Fin v \<and> 1 \<le> v \<and> v \<le> 30))
      \<and> ((\<forall>n. parsed_speed p \<noteq> JNumber n) \<longrightarrow> saved_speed sv = Fin 8)
      \<and> (parsed_wrap p = JUndefined \<longrightarrow> saved_wrap sv)
      \<and> (\<forall>b. parsed_wrap p = JBool b \<longrightarrow> saved_wrap sv = b)
      \<and> (\<forall>t. parsed_theme p = JString t \<and> t \<in> set themeIds \<longrightarrow> saved_theme sv = t)
      \<and> ((\<forall>t. parsed_theme p = JString t \<longrightarrow> t \<notin> set themeIds \<and> t \<notin> set objectPrototypeKeys)
      \<longrightarrow> saved_theme sv = ''neon'')
      \<and> (\<forall>c. parsed_cells p = JString c \<longrightarrow> saved_cells sv = Some c)
      \<and> (\<forall>w h. saved_width sv = Some w \<and> saved_height sv = Some h
      \<and> (\<forall>c. parsed_cells p = JString c \<longrightarrow> c = []) \<longrightarrow>
      initialCells (Some sv) = createEmptyBoard w h
      \<and> createEmptyBoard w h = Inr (replicate (nat (w * h)) 0))
      \<and> (\<forall>v. parsed_width p = JNumber (Fin v) \<longrightarrow>
      saved_width sv = Some (max 10 (min 150 \<lfloor>v + 1 / 2\<rfloor>)))
      \<and> (\<forall>v. parsed_height p = JNumber (Fin v) \<longrightarrow>
      saved_height sv = Some (max 10 (min 150 \<lfloor>v + 1 / 2\<rfloor>)))
      \<and> (parsed_width p = JNumber PosInf \<longrightarrow> saved_width sv = Some 150)
      \<and> (parsed_width p = JNumber NegInf \<longrightarrow> saved_width sv = Some 10)
      \<and> (parsed_height p = JNumber PosInf \<longrightarrow> saved_height sv = Some 150)
      \<and> (parsed_height p = JNumber NegInf \<longrightarrow> saved_height sv = Some 10)
      \<and> (\<forall>v. parsed_speed p = JNumber (Fin v) \<longrightarrow> saved_speed sv = Fin (min 30 (max 1 v)))
      \<and> (parsed_speed p = JNumber PosInf \<longrightarrow> saved_speed sv = Fin 30)
      \<and> (parsed_speed p = JNumber NegInf \<longrightarrow> saved_speed sv = Fin 1)"
  have p: "parsed_width sizeOnlyRecord = JNumber (Fin 50)"
    "parsed_height sizeOnlyRecord = JNumber (Fin 20)"
    "parsed_speed sizeOnlyRecord = JUndefined" "parsed_wrap sizeOnlyRecord = JUndefined"
    "parsed_theme sizeOnlyRecord = JUndefined" "parsed_cells sizeOnlyRecord = JUndefined"
    by (simp_all add: sizeOnlyRecord_def)
  have c: "clampSize 50 = 50" "clampSize 20 = 20"
    by (simp_all add: clampSize_def MIN_SIZE_def MAX_SIZE_def)
  have "\<exists>sv. ?fields sizeOnlyRecord sv"
    using loadSavedState_fields [of coerceNaN sizeOnlyRecord] by (elim conjE)
  then obtain sv where f: "?fields sizeOnlyRecord sv" ..
  from f have sv: "loadSavedState coerceNaN (Parsed sizeOnlyRecord) = Some sv"
    by (elim conjE)
  from f have w: "\<forall>v. parsed_width sizeOnlyRecord = JNumber (Fin v) \<longrightarrow>
                    saved_width sv = Some (clampSize v)"
    by (elim conjE)
  from f have h: "\<forall>v. parsed_height sizeOnlyRecord = JNumber (Fin v) \<longrightarrow>
                    saved_height sv = Some (clampSize v)"
    by (elim conjE)
  from f have s: "(\<forall>n. parsed_speed sizeOnlyRecord \<noteq> JNumber n) \<longrightarrow> saved_speed sv = Fin 8"
    by (elim conjE)
  from f have r: "parsed_wrap sizeOnlyRecord = JUndefined \<longrightarrow> saved_wrap sv"
    by (elim conjE)
  from f have t: "(\<forall>t. parsed_theme sizeOnlyRecord = JString t \<longrightarrow>
                 t \<notin> set themeIds \<and> t \<notin> set objectPrototypeKeys)
              \<longrightarrow> saved_theme sv = ''neon''"
    by (elim conjE)
  from f have b: "\<forall>w h. saved_width sv = Some w \<and> saved_height sv = Some h
                   \<and> (\<forall>c. parsed_cells sizeOnlyRecord = JString c \<longrightarrow> c = []) \<longrightarrow>
              initialCells (Some sv) = createEmptyBoard w h
              \<and> createEmptyBoard w h = Inr (replicate (nat (w * h)) 0)"
    by (elim conjE)
  from w [rule_format, of 50] c have w': "saved_width sv = Some 50" by (simp add: p)
  from h [rule_format, of 20] c have h': "saved_height sv = Some 20" by (simp add: p)
  from s have s': "saved_speed sv = Fin 8" by (simp add: p)
  from r have r': "saved_wrap sv" by (simp add: p)
  from t have t': "saved_theme sv = ''neon''" by (simp add: p)
  from b [rule_format, of 50 20] w' h' have "initialCells (Some sv) = Inr (replicate 1000 0)"
    by (simp add: p)
  with sv w' h' s' r' t'
  have first: "\<exists>sv. loadSavedState coerceNaN (Parsed sizeOnlyRecord) = Some sv
        \<and> saved_width sv = Some 50 \<and> saved_height sv = Some 20
        \<and> saved_speed sv = Fin 8 \<and> saved_wrap sv \<and> saved_theme sv = ''neon''
        \<and> initialCells (Some sv) = Inr (replicate 1000 0)"
    by (intro exI [of _ sv]) simp
  have q: "parsed_width fullRecord = JNumber PosInf"
    "parsed_height fullRecord = JNumber (Fin (41 / 2))"
    "parsed_speed fullRecord = JNumber (Fin 45)" "parsed_wrap fullRecord = JBool False"
    "parsed_theme fullRecord = JString ''dark''" "parsed_cells fullRecord = JString ''0110''"
    by (simp_all add: fullRecord_def)
  have "\<exists>sv. ?fields fullRecord sv"
    using loadSavedState_fields [of coerceNaN fullRecord] by (elim conjE)
  then obtain sv2 where g: "?fields fullRecord sv2" ..
  from g have sv2: "loadSavedState coerceNaN (Parsed fullRecord) = Some sv2"
    by (elim conjE)
  from g have w2: "parsed_width fullRecord = JNumber PosInf \<longrightarrow> saved_width sv2 = Some 150"
    by (elim conjE)
  from g have h2: "\<forall>v. parsed_height fullRecord = JNumber (Fin v) \<longrightarrow>
              saved_height sv2 = Some (max 10 (min 150 \<lfloor>v + 1 / 2\<rfloor>))"
    by (elim conjE)
  from g have s2: "\<forall>v. parsed_speed fullRecord = JNumber (Fin v) \<longrightarrow>
              saved_speed sv2 = Fin (min 30 (max 1 v))"
    by (elim conjE)
  from g have r2: "\<forall>b. parsed_wrap fullRecord = JBool b \<longrightarrow> saved_wrap sv2 = b"
    by (elim conjE)
  from g have t2: "\<forall>t. parsed_theme fullRecord = JString t \<and> t \<in> set themeIds \<longrightarrow> saved_theme sv2 = t"
    by (elim conjE)
  from g have c2: "\<forall>c. parsed_cells fullRecord = JString c \<longrightarrow> saved_cells sv2 = Some c"
    by (elim conjE)
  from w2 have w2': "saved_width sv2 = Some 150" by (simp add: q)
  from h2 [rule_format, of "41 / 2"] have h2': "saved_height sv2 = Some 21" by (simp add: q)
  from s2 [rule_format, of 45] have s2': "saved_speed sv2 = Fin 30" by (simp add: q)
  from r2 [rule_format, of False] have r2': "\<not> saved_wrap sv2" by (simp add: q)
  from t2 [rule_format, of "''dark''"] have t2': "saved_theme sv2 = ''dark''"
    by (simp add: q themeIds_def)
  from c2 [rule_format, of "''0110''"] have c2': "saved_cells sv2 = Some ''0110''"
    by (simp add: q)
  from sv2 w2' h2' s2' r2' t2' c2'
  have second: "\<exists>sv. loadSavedState coerceNaN (Parsed fullRecord) = Some sv
        \<and> saved_width sv = Some 150 \<and> saved_height sv = Some 21
        \<and> saved_speed sv = Fin 30 \<and> \<not> saved_wrap sv \<and> saved_theme sv = ''dark''
        \<and> saved_cells sv = Some ''0110''"
    by (intro exI [of _ sv2]) simp
  from first second show ?thesis by (rule conjI)
qed

text \<open>
  Against C6 as stated: a stored record with width 50 and height 20 and no cells starts on
  an empty board of 50 by 20 cells, not on one of the default size 42 by 28.
\<close>

theorem initial_board_takes_saved_size:
  "parsed_cells sizeOnlyRecord = JUndefined
   \<and> initialCells (loadSavedState coerceNaN (Parsed sizeOnlyRecord)) = Inr (replicate (50 * 20) 0)
   \<and> createEmptyBoard DEFAULT_WIDTH DEFAULT_HEIGHT = Inr (replicate (42 * 28) 0)
   \<and> length (replicate (50 * 20) (0::byte)) \<noteq> length (replicate (42 * 28) (0::byte))"
  by (simp add: sizeOnlyRecord_def loadSavedState_def initialCells_def Let_def nullish_def
      toNumber_def clampSizeJS_def clampSize_def MIN_SIZE_def MAX_SIZE_def
      DEFAULT_WIDTH_def DEFAULT_HEIGHT_def createEmptyBoard_def newUint8Array_def)

text \<open>
  Two inputs on which a field does not fall back. A width that is text which the runtime
  coerces to \<^verbatim>\<open>NaN\<close> is stored as \<^verbatim>\<open>NaN\<close>, and the initial board is then empty of length
  0; the speed field beside it is guarded by a \<^verbatim>\<open>typeof\<close> test. A theme named like a
  property of \<open>Object.prototype\<close> passes \<^verbatim>\<open>isThemeId\<close> and is kept.
\<close>

lemma loadSavedState_text_width:
  assumes "coerce (JString txt) = NaN"
  shows "map_option saved_width (loadSavedState coerce (Parsed (p\<lparr>parsed_width := JString txt\<rparr>)))
           = Some None"
    and "initialCells (loadSavedState coerce (Parsed (p\<lparr>parsed_width := JString txt\<rparr>))) = Inr []"
  using assms
  by (simp_all add: loadSavedState_def Let_def nullish_def toNumber_def clampSizeJS_def
      initialCells_def)

lemma loadSavedState_prototype_theme:
  "map_option saved_theme
     (loadSavedState coerce (Parsed (p\<lparr>parsed_theme := JString ''toString''\<rparr>)))
     = Some ''toString''"
  by (simp add: loadSavedState_def Let_def isThemeId_def objectPrototypeKeys_def)

end
